theory Spec2Isabelle
  imports Main "HOL-Library.Word"
begin

section \<open>Data model of controllers/chat.go\<close>

text \<open>
  The chat controller keeps one process-wide \<open>Hub\<close>: a map from user id to \<open>*Client\<close>,
  fed by three unbuffered channels (\<open>Register\<close>, \<open>Unregister\<close>, \<open>Broadcast\<close>) that a single
  goroutine \<open>hub.run\<close> serves. Every websocket connection owns a \<open>Client\<close> with a buffered
  channel \<open>Send\<close> of capacity 256 and two goroutines, \<open>readPump\<close> and \<open>writePump\<close>.

  A \<open>primitive.ObjectID\<close> is twelve bytes; clock readings (\<open>time.Now()\<close>) are natural
  numbers.
\<close>

type_synonym ObjectID = "96 word"

record Message =
  ID :: ObjectID
  SenderID :: string
  ReceiverID :: string
  Content :: string
  Type :: string
  Read :: bool
  CreatedAt :: nat

text \<open>
  \<open>models.SendMessageRequest\<close>, as \<open>readPump\<close> reads it: the three fields
  \<open>ReceiverID\<close>, \<open>Content\<close> and \<open>Type\<close> (prefixed here, the names being taken by
  \<open>Message\<close>). It carries no timestamp and no id.
\<close>

record SendMessageRequest =
  reqReceiverID :: string
  reqContent :: string
  reqType :: string

text \<open>
  A Go channel of messages: the buffered elements in arrival order, the capacity given to
  \<open>make\<close>, and whether \<open>close\<close> has been called.
\<close>

record chan =
  buf :: "Message list"
  cap :: nat
  closed :: bool

record Client =
  Conn :: nat
  UserID :: string
  Send :: chan

text \<open>The two fields of a document of the collection \<open>users\<close> that the controller writes.\<close>

record User =
  Online :: bool
  LastSeen :: nat

text \<open>
  The state the goroutines share. A \<open>*Client\<close> is an index into \<open>heap\<close>, so that two
  clients of one user are two different pointers and \<open>hub.Clients\<close> holds pointers, as the
  Go map does. \<open>inflight\<close> holds the messages of read pumps that are blocked on
  \<open>hub.Broadcast <- message\<close>: persisted, not yet received by the hub.
\<close>

record state =
  Clients :: "string \<rightharpoonup> nat"
  heap :: "Client list"
  users :: "string \<rightharpoonup> User"
  messages :: "Message list"
  inflight :: "Message list"
  logs :: "string list"

text \<open>The run-time panics the hub and the pumps can raise; each one ends the process.\<close>

datatype panic = CloseOfClosedChannel | SendOnClosedChannel | NilDereference

definition deref :: "state \<Rightarrow> nat \<Rightarrow> Client option" where
  "deref s p = (if p < length (heap s) then Some (heap s ! p) else None)"

text \<open>
  \<open>UpdateOne(ctx, bson.M{"_id": uid}, bson.M{"$set": ...})\<close> without upsert: the document
  of \<open>uid\<close> gets the new fields when it exists, and nothing is written otherwise. The
  controller ignores the call's result everywhere.
\<close>

definition UpdateOne :: "string \<Rightarrow> (User \<Rightarrow> User) \<Rightarrow> (string \<rightharpoonup> User) \<Rightarrow> (string \<rightharpoonup> User)" where
  "UpdateOne uid f us = (case us uid of None \<Rightarrow> us | Some u \<Rightarrow> us(uid \<mapsto> f u))"

section \<open>The hub: \<open>Hub.run\<close>\<close>

text \<open>\<open>case client := <-h.Register\<close>, with \<open>now\<close> the reading of \<open>time.Now()\<close>.\<close>

definition run_Register :: "nat \<Rightarrow> nat \<Rightarrow> state \<Rightarrow> panic + state" where
  "run_Register now p s =
     (case deref s p of
        None \<Rightarrow> Inl NilDereference
      | Some client \<Rightarrow>
          Inr (s\<lparr>Clients := (Clients s)(UserID client \<mapsto> p),
                 users := UpdateOne (UserID client) (\<lambda>u. u\<lparr>Online := True, LastSeen := now\<rparr>) (users s),
                 logs := logs s @ [''User '' @ UserID client @ '' connected'']\<rparr>))"

text \<open>
  \<open>case client := <-h.Unregister\<close>. The test is \<open>_, ok := h.Clients[client.UserID]\<close>: the
  value found is discarded. \<open>close(client.Send)\<close> panics on a channel that is closed
  already, before the presence write.
\<close>

definition run_Unregister :: "nat \<Rightarrow> nat \<Rightarrow> state \<Rightarrow> panic + state" where
  "run_Unregister now p s =
     (case deref s p of
        None \<Rightarrow> Inl NilDereference
      | Some client \<Rightarrow>
          (case Clients s (UserID client) of
             None \<Rightarrow> Inr s
           | Some _ \<Rightarrow>
               if closed (Send client) then Inl CloseOfClosedChannel
               else Inr (s\<lparr>Clients := (Clients s)(UserID client := None),
                           heap := (heap s)[p := client\<lparr>Send := (Send client)\<lparr>closed := True\<rparr>\<rparr>],
                           users := UpdateOne (UserID client) (\<lambda>u. u\<lparr>Online := False, LastSeen := now\<rparr>) (users s),
                           logs := logs s @ [''User '' @ UserID client @ '' disconnected'']\<rparr>)))"

text \<open>
  One of the two blocks of \<open>case message := <-h.Broadcast\<close>, for the key \<open>uid\<close>:
  \<open>if c, ok := h.Clients[uid]; ok { select { case c.Send <- message: default: delete(h.Clients, uid); close(c.Send) } }\<close>.
  A send on a closed channel panics; a send on an open channel with room appends; with
  no room the \<open>default\<close> branch runs.
\<close>

definition send_or_drop :: "string \<Rightarrow> Message \<Rightarrow> state \<Rightarrow> panic + state" where
  "send_or_drop uid message s =
     (case Clients s uid of
        None \<Rightarrow> Inr s
      | Some p \<Rightarrow>
          (case deref s p of
             None \<Rightarrow> Inl NilDereference
           | Some client \<Rightarrow>
               if closed (Send client) then Inl SendOnClosedChannel
               else if length (buf (Send client)) < cap (Send client)
               then Inr (s\<lparr>heap := (heap s)[p := client\<lparr>Send := (Send client)\<lparr>buf := buf (Send client) @ [message]\<rparr>\<rparr>]\<rparr>)
               else Inr (s\<lparr>Clients := (Clients s)(uid := None),
                           heap := (heap s)[p := client\<lparr>Send := (Send client)\<lparr>closed := True\<rparr>\<rparr>]\<rparr>)))"

text \<open>The receiver's block, then the sender's block.\<close>

definition run_Broadcast :: "Message \<Rightarrow> state \<Rightarrow> panic + state" where
  "run_Broadcast message s =
     (case send_or_drop (ReceiverID message) message s of
        Inl e \<Rightarrow> Inl e
      | Inr s1 \<Rightarrow> send_or_drop (SenderID message) message s1)"

datatype hub_event = Register nat | Unregister nat | Broadcast Message

text \<open>
  The \<open>for { select { ... } }\<close> loop of \<open>Hub.run\<close> on the events it receives, in the order it
  receives them, each with the clock reading of its turn. A panic ends the loop.
\<close>

fun run_event :: "nat \<Rightarrow> hub_event \<Rightarrow> state \<Rightarrow> panic + state" where
  "run_event now (Register p) s = run_Register now p s"
| "run_event now (Unregister p) s = run_Unregister now p s"
| "run_event now (Broadcast m) s = run_Broadcast m s"

fun run :: "(nat \<times> hub_event) list \<Rightarrow> state \<Rightarrow> panic + state" where
  "run [] s = Inr s"
| "run ((now, ev) # evs) s =
     (case run_event now ev s of Inl e \<Rightarrow> Inl e | Inr s' \<Rightarrow> run evs s')"

section \<open>The handshake: \<open>WebSocketChat\<close>\<close>

text \<open>
  \<open>jwt.Parse\<close> belongs to a library and is a parameter of the model. It returns an error
  or a token; a token has the flag \<open>Valid\<close> and claims, which are \<open>jwt.MapClaims\<close> or of
  another type; a claim is an \<open>interface{}\<close>, a string or something else.
\<close>

datatype claim_value = StringValue string | OtherValue

datatype claims = MapClaims "string \<rightharpoonup> claim_value" | OtherClaims

record Token =
  Valid :: bool
  Claims :: claims

text \<open>What the handler does to the transport \<open>c\<close>, and the goroutines it starts.\<close>

datatype conn_op = Close | WriteJSON Message | WriteCloseMessage

datatype goroutine = GoWritePump nat | GoReadPump nat

text \<open>
  The checks of \<open>WebSocketChat\<close> up to the creation of the client, in the source's order:
  the query parameter is empty; \<open>jwt.Parse\<close> fails or the token is not valid; the claims
  are not \<open>MapClaims\<close>; \<open>claims["user_id"]\<close> is not a string or is the empty string. Each
  of them ends in \<open>c.Close(); return\<close>, here \<open>None\<close>.
\<close>

definition token_user :: "(string \<Rightarrow> string + Token) \<Rightarrow> string \<Rightarrow> string option" where
  "token_user jwt_Parse tokenStr =
     (if tokenStr = [] then None
      else (case jwt_Parse tokenStr of
        Inl err \<Rightarrow> None
      | Inr token \<Rightarrow>
          if \<not> Valid token then None
          else (case Claims token of
            OtherClaims \<Rightarrow> None
          | MapClaims cm \<Rightarrow>
              (case cm ''user_id'' of
                 Some (StringValue userID) \<Rightarrow> if userID = [] then None else Some userID
               | _ \<Rightarrow> None))))"

text \<open>
  The handler on the transport \<open>c\<close>. On success the new \<open>Client\<close> is allocated with
  \<open>make(chan models.Message, 256)\<close>, sent on \<open>hub.Register\<close> (an unbuffered channel: the
  send returns when the hub has taken the client, and the hub's turn runs with the clock
  reading \<open>now\<close>), and the two pumps are started.
\<close>

definition WebSocketChat ::
  "(string \<Rightarrow> string + Token) \<Rightarrow> nat \<Rightarrow> string \<Rightarrow> nat \<Rightarrow> state \<Rightarrow> panic + (state \<times> conn_op list \<times> goroutine list)" where
  "WebSocketChat jwt_Parse c tokenStr now s =
     (case token_user jwt_Parse tokenStr of
        None \<Rightarrow> Inr (s, [Close], [])
      | Some userID \<Rightarrow>
          (let client = \<lparr>Conn = c, UserID = userID, Send = \<lparr>buf = [], cap = 256, closed = False\<rparr>\<rparr>;
               p = length (heap s)
           in case run_Register now p (s\<lparr>heap := heap s @ [client]\<rparr>) of
                Inl e \<Rightarrow> Inl e
              | Inr s' \<Rightarrow> Inr (s', [], [GoWritePump p, GoReadPump p])))"

section \<open>The pumps\<close>

text \<open>
  What the environment gives one turn of the read loop after a frame has been decoded:
  the id from \<open>primitive.NewObjectID()\<close>, the clock reading stored in \<open>CreatedAt\<close>, the
  error of \<open>InsertOne\<close> (\<open>None\<close> for \<open>nil\<close>), and the clock reading of the last-seen write.
\<close>

record frame_env =
  new_id :: ObjectID
  created_now :: nat
  insert_err :: "string option"
  seen_now :: nat

text \<open>
  The body of the \<open>for\<close> loop of \<open>readPump\<close> after a successful \<open>ReadJSON\<close>, for the
  client whose \<open>c.UserID\<close> is \<open>uid\<close>. \<open>Validate\<close> is a method of the package \<open>models\<close> and a
  parameter here. The result is the new state and the message that the loop then sends on
  \<open>hub.Broadcast\<close>, if any; every \<open>continue\<close> gives \<open>None\<close>.
\<close>

definition readPump_body ::
  "(SendMessageRequest \<Rightarrow> string list) \<Rightarrow> string \<Rightarrow> SendMessageRequest \<Rightarrow> frame_env \<Rightarrow> state
     \<Rightarrow> state \<times> Message option" where
  "readPump_body Validate uid msgReq env s =
     (if length (Validate msgReq) > 0 then (s, None)
      else if reqReceiverID msgReq = uid then (s, None)
      else
        let message = \<lparr>ID = new_id env, SenderID = uid, ReceiverID = reqReceiverID msgReq,
                        Content = reqContent msgReq, Type = reqType msgReq, Read = False,
                        CreatedAt = created_now env\<rparr>
        in case insert_err env of
             Some err \<Rightarrow> (s\<lparr>logs := logs s @ [''Failed to save message: '' @ err]\<rparr>, None)
           | None \<Rightarrow>
               (s\<lparr>messages := messages s @ [message],
                   users := UpdateOne uid (\<lambda>u. u\<lparr>LastSeen := seen_now env\<rparr>) (users s)\<rparr>,
                Some message))"

text \<open>
  \<open>readPump\<close> of the client \<open>p\<close> on the frames it decodes before \<open>ReadJSON\<close> fails (the
  read deadline makes it fail at last). It returns the state and what it sends to the hub,
  in order: a \<open>Broadcast\<close> for each message that passed, and the deferred \<open>Unregister\<close>.
\<close>

fun readPump ::
  "(SendMessageRequest \<Rightarrow> string list) \<Rightarrow> nat \<Rightarrow> string \<Rightarrow> (SendMessageRequest \<times> frame_env) list \<Rightarrow> state
     \<Rightarrow> state \<times> hub_event list" where
  "readPump Validate p uid [] s = (s, [Unregister p])"
| "readPump Validate p uid ((msgReq, env) # frames) s =
     (case readPump_body Validate uid msgReq env s of
        (s', None) \<Rightarrow> readPump Validate p uid frames s'
      | (s', Some message) \<Rightarrow>
          (case readPump Validate p uid frames s' of
             (s'', evs) \<Rightarrow> (s'', Broadcast message # evs)))"

text \<open>
  The case \<open>message, ok := <-c.Send\<close> of \<open>writePump\<close>: with a buffered message, it is taken
  and written (\<open>write_ok\<close> tells whether \<open>WriteJSON\<close> succeeded; a failure ends the pump,
  whose deferred function closes the transport); with an empty closed channel the pump
  writes a close frame and ends; with an empty open channel it waits.
\<close>

definition writePump_recv :: "bool \<Rightarrow> nat \<Rightarrow> state \<Rightarrow> panic + (state \<times> conn_op list)" where
  "writePump_recv write_ok p s =
     (case deref s p of
        None \<Rightarrow> Inl NilDereference
      | Some client \<Rightarrow>
          (case buf (Send client) of
             [] \<Rightarrow> if closed (Send client) then Inr (s, [WriteCloseMessage, Close]) else Inr (s, [])
           | message # rest \<Rightarrow>
               Inr (s\<lparr>heap := (heap s)[p := client\<lparr>Send := (Send client)\<lparr>buf := rest\<rparr>\<rparr>]\<rparr>,
                    if write_ok then [WriteJSON message] else [WriteJSON message, Close])))"

section \<open>The goroutines together\<close>

text \<open>
  One atomic step of the whole controller: a handshake, one turn of a read loop up to its
  send on \<open>hub.Broadcast\<close>, the hub's turn for a message that a read pump is holding, the
  exit of a read loop with the hub's \<open>Unregister\<close> turn, a receive of a write pump. A step
  for a pointer that was never allocated, or for a message no read pump holds, does not
  exist in the program and leaves the state as it is. Any order of steps is allowed, which
  includes every order the scheduler can produce.
\<close>

datatype action =
    Connect nat string nat
  | Frame nat SendMessageRequest frame_env
  | HubBroadcast Message
  | Disconnect nat nat
  | WriteRecv nat bool

fun exec ::
  "(string \<Rightarrow> string + Token) \<Rightarrow> (SendMessageRequest \<Rightarrow> string list) \<Rightarrow> action \<Rightarrow> state \<Rightarrow> panic + state" where
  "exec jwt_Parse Validate (Connect c tokenStr now) s =
     (case WebSocketChat jwt_Parse c tokenStr now s of Inl e \<Rightarrow> Inl e | Inr (s', _, _) \<Rightarrow> Inr s')"
| "exec jwt_Parse Validate (Frame p msgReq env) s =
     (case deref s p of
        None \<Rightarrow> Inr s
      | Some client \<Rightarrow>
          (case readPump_body Validate (UserID client) msgReq env s of
             (s', None) \<Rightarrow> Inr s'
           | (s', Some message) \<Rightarrow> Inr (s'\<lparr>inflight := inflight s' @ [message]\<rparr>)))"
| "exec jwt_Parse Validate (HubBroadcast message) s =
     (if message \<in> set (inflight s)
      then run_Broadcast message (s\<lparr>inflight := remove1 message (inflight s)\<rparr>)
      else Inr s)"
| "exec jwt_Parse Validate (Disconnect p now) s =
     (if p < length (heap s) then run_Unregister now p s else Inr s)"
| "exec jwt_Parse Validate (WriteRecv p write_ok) s =
     (case writePump_recv write_ok p s of Inl e \<Rightarrow> Inr s | Inr (s', _) \<Rightarrow> Inr s')"

fun execs ::
  "(string \<Rightarrow> string + Token) \<Rightarrow> (SendMessageRequest \<Rightarrow> string list) \<Rightarrow> action list \<Rightarrow> state \<Rightarrow> panic + state" where
  "execs jwt_Parse Validate [] s = Inr s"
| "execs jwt_Parse Validate (a # as) s =
     (case exec jwt_Parse Validate a s of Inl e \<Rightarrow> Inl e | Inr s' \<Rightarrow> execs jwt_Parse Validate as s')"

text \<open>
  The state at process start: \<open>hub.Clients\<close> is the empty map of the package variable
  \<open>hub\<close>, no client exists, and the collection \<open>users\<close> holds the documents \<open>us\<close>.
\<close>

definition init_state :: "(string \<rightharpoonup> User) \<Rightarrow> state" where
  "init_state us = \<lparr>Clients = Map.empty, heap = [], users = us, messages = [], inflight = [], logs = []\<rparr>"

section \<open>Predicates used in the statements\<close>

text \<open>
  Every entry of the registry points to an allocated client that carries the entry's key as
  its \<open>UserID\<close> and whose channel is open.
\<close>

definition hub_inv :: "state \<Rightarrow> bool" where
  "hub_inv s \<longleftrightarrow>
     (\<forall>uid p. Clients s uid = Some p \<longrightarrow>
        p < length (heap s) \<and> UserID (heap s ! p) = uid \<and> \<not> closed (Send (heap s ! p)))"

text \<open>The channel of the client \<open>p\<close>, and whether a non-blocking send finds no room in it.\<close>

definition Send_of :: "state \<Rightarrow> nat \<Rightarrow> chan" where
  "Send_of s p = Send (heap s ! p)"

definition full :: "chan \<Rightarrow> bool" where
  "full ch \<longleftrightarrow> \<not> length (buf ch) < cap ch"

text \<open>A message addressed to its own sender.\<close>

definition self_addressed :: "Message \<Rightarrow> bool" where
  "self_addressed m \<longleftrightarrow> SenderID m = ReceiverID m"

text \<open>Whether a step is a handshake that registers a client of the user \<open>uid\<close>.\<close>

fun connects :: "(string \<Rightarrow> string + Token) \<Rightarrow> string \<Rightarrow> action \<Rightarrow> bool" where
  "connects jwt_Parse uid (Connect c tokenStr now) = (token_user jwt_Parse tokenStr = Some uid)"
| "connects jwt_Parse uid _ = False"

text \<open>
  Fixed inputs for the concrete runs below: a token parser that accepts every token and
  reads the token text as the user id, a validation that rejects empty content, and a
  collection \<open>users\<close> with the documents of \<open>a\<close> and \<open>b\<close>.
\<close>

definition parse0 :: "string \<Rightarrow> string + Token" where
  "parse0 t = Inr \<lparr>Valid = True, Claims = MapClaims [''user_id'' \<mapsto> StringValue t]\<rparr>"

definition validate0 :: "SendMessageRequest \<Rightarrow> string list" where
  "validate0 r = (if reqContent r = [] then [''content is required''] else [])"

definition users0 :: "string \<rightharpoonup> User" where
  "users0 = [''a'' \<mapsto> \<lparr>Online = False, LastSeen = 0\<rparr>, ''b'' \<mapsto> \<lparr>Online = False, LastSeen = 0\<rparr>]"

definition req_hi :: SendMessageRequest where
  "req_hi = \<lparr>reqReceiverID = ''b'', reqContent = ''hi'', reqType = ''text''\<rparr>"

definition req_empty :: SendMessageRequest where
  "req_empty = \<lparr>reqReceiverID = ''b'', reqContent = [], reqType = ''text''\<rparr>"

definition req_self :: SendMessageRequest where
  "req_self = \<lparr>reqReceiverID = ''a'', reqContent = ''hi'', reqType = ''text''\<rparr>"

definition env_ok :: frame_env where
  "env_ok = \<lparr>new_id = 1, created_now = 100, insert_err = None, seen_now = 101\<rparr>"

definition env_fail :: frame_env where
  "env_fail = \<lparr>new_id = 1, created_now = 100, insert_err = Some ''write error'', seen_now = 101\<rparr>"

definition msg_hi :: Message where
  "msg_hi = \<lparr>ID = 1, SenderID = ''a'', ReceiverID = ''b'', Content = ''hi'', Type = ''text'',
              Read = False, CreatedAt = 100\<rparr>"

definition msg_old :: Message where
  "msg_old = \<lparr>ID = 0, SenderID = ''a'', ReceiverID = ''b'', Content = ''old'', Type = ''text'',
               Read = False, CreatedAt = 50\<rparr>"

text \<open>
  A state in which \<open>a\<close> and \<open>b\<close> are registered and online, the queue of \<open>a\<close> is empty and
  the queue of \<open>b\<close> holds 256 messages that its write pump has not taken.
\<close>

definition st_full :: state where
  "st_full =
     \<lparr>Clients = [''a'' \<mapsto> 0, ''b'' \<mapsto> 1],
      heap = [\<lparr>Conn = 1, UserID = ''a'', Send = \<lparr>buf = [], cap = 256, closed = False\<rparr>\<rparr>,
              \<lparr>Conn = 2, UserID = ''b'', Send = \<lparr>buf = replicate 256 msg_old, cap = 256, closed = False\<rparr>\<rparr>],
      users = [''a'' \<mapsto> \<lparr>Online = True, LastSeen = 51\<rparr>, ''b'' \<mapsto> \<lparr>Online = True, LastSeen = 20\<rparr>],
      messages = replicate 256 msg_old,
      inflight = [],
      logs = [''User a connected'', ''User b connected'']\<rparr>"

text \<open>
  No stored message, no message a read pump is holding for the hub, and no queued message
  is addressed to its own sender.
\<close>

definition no_self_state :: "state \<Rightarrow> bool" where
  "no_self_state s \<longleftrightarrow>
     (\<forall>m \<in> set (messages s). \<not> self_addressed m) \<and>
     (\<forall>m \<in> set (inflight s). \<not> self_addressed m) \<and>
     (\<forall>c \<in> set (heap s). \<forall>m \<in> set (buf (Send c)). \<not> self_addressed m)"

text \<open>The document of a registered user, when there is one, says that the user is online.\<close>

definition online_inv :: "state \<Rightarrow> bool" where
  "online_inv s \<longleftrightarrow> (\<forall>uid u. Clients s uid \<noteq> None \<and> users s uid = Some u \<longrightarrow> Online u)"

text \<open>The runs and states of the examples below.\<close>

definition msg_back :: Message where
  "msg_back = \<lparr>ID = 2, SenderID = ''b'', ReceiverID = ''a'', Content = ''yo'', Type = ''text'',
               Read = False, CreatedAt = 60\<rparr>"

definition trace_hi :: "action list" where
  "trace_hi = [Connect 1 ''a'' 10, Connect 2 ''b'' 20, Frame 0 req_self env_ok, Frame 0 req_hi env_ok,
               HubBroadcast msg_hi]"

definition st_hi :: state where
  "st_hi =
     \<lparr>Clients = [''a'' \<mapsto> 0, ''b'' \<mapsto> 1],
      heap = [\<lparr>Conn = 1, UserID = ''a'', Send = \<lparr>buf = [msg_hi], cap = 256, closed = False\<rparr>\<rparr>,
              \<lparr>Conn = 2, UserID = ''b'', Send = \<lparr>buf = [msg_hi], cap = 256, closed = False\<rparr>\<rparr>],
      users = [''a'' \<mapsto> \<lparr>Online = True, LastSeen = 101\<rparr>, ''b'' \<mapsto> \<lparr>Online = True, LastSeen = 20\<rparr>],
      messages = [msg_hi],
      inflight = [],
      logs = [''User a connected'', ''User b connected'']\<rparr>"

definition st_ab :: state where
  "st_ab =
     \<lparr>Clients = [''a'' \<mapsto> 0, ''b'' \<mapsto> 1],
      heap = [\<lparr>Conn = 1, UserID = ''a'', Send = \<lparr>buf = [], cap = 256, closed = False\<rparr>\<rparr>,
              \<lparr>Conn = 2, UserID = ''b'', Send = \<lparr>buf = [], cap = 256, closed = False\<rparr>\<rparr>],
      users = [''a'' \<mapsto> \<lparr>Online = True, LastSeen = 10\<rparr>, ''b'' \<mapsto> \<lparr>Online = True, LastSeen = 20\<rparr>],
      messages = [],
      inflight = [],
      logs = [''User a connected'', ''User b connected'']\<rparr>"

text \<open>
  A run that fills the queue of \<open>b\<close>: after the two handshakes, 256 rounds in which \<open>a\<close>
  sends a message to \<open>b\<close>, the hub dispatches it, and the write pump of \<open>a\<close> takes the echo,
  while the write pump of \<open>b\<close> takes nothing. \<open>fill_state n\<close> is the state after \<open>n\<close> rounds.
\<close>

definition req_old :: SendMessageRequest where
  "req_old = \<lparr>reqReceiverID = ''b'', reqContent = ''old'', reqType = ''text''\<rparr>"

definition env_old :: frame_env where
  "env_old = \<lparr>new_id = 0, created_now = 50, insert_err = None, seen_now = 51\<rparr>"

definition fill_round :: "action list" where
  "fill_round = [Frame 0 req_old env_old, HubBroadcast msg_old, WriteRecv 0 True]"

definition fill_state :: "nat \<Rightarrow> state" where
  "fill_state n =
     \<lparr>Clients = [''a'' \<mapsto> 0, ''b'' \<mapsto> 1],
      heap = [\<lparr>Conn = 1, UserID = ''a'', Send = \<lparr>buf = [], cap = 256, closed = False\<rparr>\<rparr>,
              \<lparr>Conn = 2, UserID = ''b'', Send = \<lparr>buf = replicate n msg_old, cap = 256, closed = False\<rparr>\<rparr>],
      users = [''a'' \<mapsto> \<lparr>Online = True, LastSeen = 51\<rparr>, ''b'' \<mapsto> \<lparr>Online = True, LastSeen = 20\<rparr>],
      messages = replicate n msg_old,
      inflight = [],
      logs = [''User a connected'', ''User b connected'']\<rparr>"

definition trace_full :: "action list" where
  "trace_full = [Connect 1 ''a'' 10, Connect 2 ''b'' 20] @ fill_round @ concat (replicate 255 fill_round)"

text \<open>
  The same run, continued: \<open>a\<close> sends one more message, the hub finds the queue of \<open>b\<close> full
  and evicts the client of \<open>b\<close>, \<open>b\<close> connects again, and the read pump of the evicted client
  ends.
\<close>

definition trace_panic :: "action list" where
  "trace_panic = trace_full @ [Frame 0 req_hi env_ok, HubBroadcast msg_hi, Connect 3 ''b'' 40, Disconnect 1 50]"

definition st_evicted :: state where
  "st_evicted =
     \<lparr>Clients = [''a'' \<mapsto> 0],
      heap = [\<lparr>Conn = 1, UserID = ''a'', Send = \<lparr>buf = [msg_hi], cap = 256, closed = False\<rparr>\<rparr>,
              \<lparr>Conn = 2, UserID = ''b'', Send = \<lparr>buf = replicate 256 msg_old, cap = 256, closed = True\<rparr>\<rparr>],
      users = [''a'' \<mapsto> \<lparr>Online = True, LastSeen = 51\<rparr>, ''b'' \<mapsto> \<lparr>Online = True, LastSeen = 20\<rparr>],
      messages = replicate 256 msg_old,
      inflight = [],
      logs = [''User a connected'', ''User b connected'']\<rparr>"

definition st_evicted_back :: state where
  "st_evicted_back =
     \<lparr>Clients = [''a'' \<mapsto> 0],
      heap = [\<lparr>Conn = 1, UserID = ''a'', Send = \<lparr>buf = [msg_back], cap = 256, closed = False\<rparr>\<rparr>,
              \<lparr>Conn = 2, UserID = ''b'', Send = \<lparr>buf = replicate 256 msg_old, cap = 256, closed = True\<rparr>\<rparr>],
      users = [''a'' \<mapsto> \<lparr>Online = True, LastSeen = 51\<rparr>, ''b'' \<mapsto> \<lparr>Online = True, LastSeen = 20\<rparr>],
      messages = replicate 256 msg_old,
      inflight = [],
      logs = [''User a connected'', ''User b connected'']\<rparr>"

definition trace_after :: "action list" where
  "trace_after = [Disconnect 1 30, Frame 0 req_hi env_ok, Connect 3 ''a'' 40, WriteRecv 0 True]"

definition st_two :: state where
  "st_two =
     \<lparr>Clients = [''a'' \<mapsto> 1],
      heap = [\<lparr>Conn = 1, UserID = ''a'', Send = \<lparr>buf = [], cap = 256, closed = False\<rparr>\<rparr>,
              \<lparr>Conn = 2, UserID = ''a'', Send = \<lparr>buf = [], cap = 256, closed = False\<rparr>\<rparr>],
      users = [''a'' \<mapsto> \<lparr>Online = True, LastSeen = 20\<rparr>, ''b'' \<mapsto> \<lparr>Online = False, LastSeen = 0\<rparr>],
      messages = [],
      inflight = [],
      logs = [''User a connected'', ''User a connected'']\<rparr>"

definition st_stale :: state where
  "st_stale =
     \<lparr>Clients = Map.empty,
      heap = [\<lparr>Conn = 1, UserID = ''a'', Send = \<lparr>buf = [], cap = 256, closed = True\<rparr>\<rparr>,
              \<lparr>Conn = 2, UserID = ''a'', Send = \<lparr>buf = [], cap = 256, closed = False\<rparr>\<rparr>],
      users = [''a'' \<mapsto> \<lparr>Online = False, LastSeen = 30\<rparr>, ''b'' \<mapsto> \<lparr>Online = False, LastSeen = 0\<rparr>],
      messages = [],
      inflight = [],
      logs = [''User a connected'', ''User a connected'', ''User a disconnected'']\<rparr>"



text \<open>
  A token parser that fails in each way the handshake tests: an error, a token that is not
  valid, claims of another type, a user id that is not a string, an empty user id, and no
  user id at all.
\<close>

definition parse_bad :: "string \<Rightarrow> string + Token" where
  "parse_bad t =
     (if t = ''expired'' then Inl ''token is expired''
      else if t = ''forged'' then Inr \<lparr>Valid = False, Claims = MapClaims [''user_id'' \<mapsto> StringValue ''a'']\<rparr>
      else if t = ''typed'' then Inr \<lparr>Valid = True, Claims = OtherClaims\<rparr>
      else if t = ''numeric'' then Inr \<lparr>Valid = True, Claims = MapClaims [''user_id'' \<mapsto> OtherValue]\<rparr>
      else if t = ''anonymous'' then Inr \<lparr>Valid = True, Claims = MapClaims [''user_id'' \<mapsto> StringValue []]\<rparr>
      else Inr \<lparr>Valid = True, Claims = MapClaims Map.empty\<rparr>)"

text \<open>
  The run that fills the queue of \<open>b\<close>, continued up to the second handshake of \<open>b\<close>: the
  evicted client of \<open>b\<close> is the client 1, its read pump has not ended yet.
\<close>

definition trace_relogin :: "action list" where
  "trace_relogin = trace_full @ [Frame 0 req_hi env_ok, HubBroadcast msg_hi, Connect 3 ''b'' 40]"

definition st_relogin :: state where
  "st_relogin =
     \<lparr>Clients = [''a'' \<mapsto> 0, ''b'' \<mapsto> 2],
      heap = [\<lparr>Conn = 1, UserID = ''a'', Send = \<lparr>buf = [msg_hi], cap = 256, closed = False\<rparr>\<rparr>,
              \<lparr>Conn = 2, UserID = ''b'', Send = \<lparr>buf = replicate 256 msg_old, cap = 256, closed = True\<rparr>\<rparr>,
              \<lparr>Conn = 3, UserID = ''b'', Send = \<lparr>buf = [], cap = 256, closed = False\<rparr>\<rparr>],
      users = [''a'' \<mapsto> \<lparr>Online = True, LastSeen = 101\<rparr>, ''b'' \<mapsto> \<lparr>Online = True, LastSeen = 40\<rparr>],
      messages = replicate 256 msg_old @ [msg_hi],
      inflight = [],
      logs = [''User a connected'', ''User b connected'', ''User b connected'']\<rparr>"




section \<open>Basic facts\<close>

lemma UpdateOne_other: "k \<noteq> uid \<Longrightarrow> UpdateOne uid f us k = us k"
  by (simp add: UpdateOne_def split: option.splits)

lemma UpdateOne_same: "UpdateOne uid f us uid = map_option f (us uid)"
  by (simp add: UpdateOne_def split: option.splits)

lemma Online_UpdateOne_LastSeen:
  "map_option Online (UpdateOne u (\<lambda>x. x\<lparr>LastSeen := t\<rparr>) us k) = map_option Online (us k)"
  by (cases "k = u") (auto simp: UpdateOne_def split: option.splits)

lemma UserID_heap_update:
  "p < length h \<Longrightarrow> UserID (h[p := (h ! p)\<lparr>Send := ch\<rparr>] ! q) = UserID (h ! q)"
  by (cases "q = p") simp_all

lemma Send_heap_update:
  "p < length h \<Longrightarrow> Send (h[p := (h ! p)\<lparr>Send := ch\<rparr>] ! q) = (if q = p then ch else Send (h ! q))"
  by (cases "q = p") simp_all

lemma closed_heap_update:
  assumes "p < length h" and "closed (Send (h ! p))" and "closed (Send (h ! q)) \<longrightarrow> closed (Send c')"
  shows "closed (Send (h[q := c'] ! p))"
  using assms by (cases "p = q") simp_all

text \<open>The definitions that a run on concrete inputs unfolds.\<close>

lemmas eval_defs = WebSocketChat_def token_user_def parse0_def validate0_def run_Register_def
  run_Unregister_def run_Broadcast_def send_or_drop_def deref_def UpdateOne_def readPump_body_def
  writePump_recv_def init_state_def users0_def Let_def
  req_hi_def req_self_def req_empty_def env_ok_def env_fail_def msg_hi_def msg_old_def

section \<open>The registry invariant\<close>

lemma hub_invD:
  "hub_inv s \<Longrightarrow> Clients s uid = Some p \<Longrightarrow>
     p < length (heap s) \<and> UserID (heap s ! p) = uid \<and> \<not> closed (Send (heap s ! p))"
  by (simp add: hub_inv_def)

lemma hub_inv_inj:
  "hub_inv s \<Longrightarrow> Clients s u = Some p \<Longrightarrow> Clients s u' = Some p \<Longrightarrow> u = u'"
  by (auto simp: hub_inv_def)

text \<open>One block of the broadcast turn, on a registry that satisfies the invariant.\<close>

lemma send_or_drop_absent:
  "Clients s uid = None \<Longrightarrow> send_or_drop uid m s = Inr s"
  by (simp add: send_or_drop_def)

lemma send_or_drop_room:
  assumes "hub_inv s" and "Clients s uid = Some p" and "\<not> full (Send_of s p)"
  shows "send_or_drop uid m s =
           Inr (s\<lparr>heap := (heap s)[p := (heap s ! p)\<lparr>Send := (Send_of s p)\<lparr>buf := buf (Send_of s p) @ [m]\<rparr>\<rparr>]\<rparr>)"
  using assms hub_invD [OF assms(1,2)]
  by (simp add: send_or_drop_def deref_def full_def Send_of_def)

lemma send_or_drop_full:
  assumes "hub_inv s" and "Clients s uid = Some p" and "full (Send_of s p)"
  shows "send_or_drop uid m s =
           Inr (s\<lparr>Clients := (Clients s)(uid := None),
                  heap := (heap s)[p := (heap s ! p)\<lparr>Send := (Send_of s p)\<lparr>closed := True\<rparr>\<rparr>]\<rparr>)"
  using assms hub_invD [OF assms(1,2)]
  by (simp add: send_or_drop_def deref_def full_def Send_of_def)

lemma send_or_drop_cases:
  assumes "hub_inv s"
  obtains
    (absent) "Clients s uid = None" "send_or_drop uid m s = Inr s"
  | (room) p where "Clients s uid = Some p" "\<not> full (Send_of s p)" "p < length (heap s)"
      "send_or_drop uid m s =
         Inr (s\<lparr>heap := (heap s)[p := (heap s ! p)\<lparr>Send := (Send_of s p)\<lparr>buf := buf (Send_of s p) @ [m]\<rparr>\<rparr>]\<rparr>)"
  | (full) p where "Clients s uid = Some p" "full (Send_of s p)" "p < length (heap s)"
      "send_or_drop uid m s =
         Inr (s\<lparr>Clients := (Clients s)(uid := None),
                heap := (heap s)[p := (heap s ! p)\<lparr>Send := (Send_of s p)\<lparr>closed := True\<rparr>\<rparr>]\<rparr>)"
proof (cases "Clients s uid")
  case None
  then show ?thesis using absent send_or_drop_absent by blast
next
  case (Some p)
  show ?thesis
  proof (cases "full (Send_of s p)")
    case True
    then show ?thesis using full [of p] Some send_or_drop_full [OF assms Some True] hub_invD [OF assms Some] by blast
  next
    case False
    then show ?thesis using room [of p] Some send_or_drop_room [OF assms Some False] hub_invD [OF assms Some] by blast
  qed
qed

lemma hub_inv_send_or_drop:
  assumes "hub_inv s" and "send_or_drop uid m s = Inr s'"
  shows "hub_inv s'"
  using assms(1)
proof (cases rule: send_or_drop_cases [where uid = uid and m = m])
  case absent
  with assms show ?thesis by simp
next
  case (room p)
  with assms have s': "s' = s\<lparr>heap := (heap s)[p := (heap s ! p)\<lparr>Send := (Send_of s p)\<lparr>buf := buf (Send_of s p) @ [m]\<rparr>\<rparr>]\<rparr>"
    by simp
  show ?thesis
    unfolding hub_inv_def s'
    using assms(1) room(3) by (auto simp: hub_inv_def UserID_heap_update Send_heap_update Send_of_def)
next
  case (full p)
  with assms have s': "s' = s\<lparr>Clients := (Clients s)(uid := None),
                heap := (heap s)[p := (heap s ! p)\<lparr>Send := (Send_of s p)\<lparr>closed := True\<rparr>\<rparr>]\<rparr>"
    by simp
  show ?thesis
    unfolding hub_inv_def s'
    using assms(1) full(1,3) by (auto simp: hub_inv_def UserID_heap_update Send_heap_update Send_of_def)
qed

lemma send_or_drop_ok:
  assumes "hub_inv s"
  shows "\<exists>s'. send_or_drop uid m s = Inr s'"
  using assms by (cases rule: send_or_drop_cases [where uid = uid and m = m]) simp_all

lemma send_or_drop_frame:
  "send_or_drop uid m s = Inr s' \<Longrightarrow>
     users s' = users s \<and> messages s' = messages s \<and> inflight s' = inflight s \<and> logs s' = logs s \<and>
     length (heap s') = length (heap s)"
  by (auto simp: send_or_drop_def deref_def split: option.splits if_splits)

lemma send_or_drop_Clients_other:
  "send_or_drop uid m s = Inr s' \<Longrightarrow> k \<noteq> uid \<Longrightarrow> Clients s' k = Clients s k"
  by (auto simp: send_or_drop_def deref_def split: option.splits if_splits)

lemma send_or_drop_heap_other:
  "send_or_drop uid m s = Inr s' \<Longrightarrow> Clients s uid \<noteq> Some q \<Longrightarrow> heap s' ! q = heap s ! q"
  by (auto simp: send_or_drop_def deref_def split: option.splits if_splits)

lemma send_or_drop_UserID:
  "send_or_drop uid m s = Inr s' \<Longrightarrow> UserID (heap s' ! q) = UserID (heap s ! q)"
  by (cases "Clients s uid = Some q")
     (auto simp: send_or_drop_def deref_def split: option.splits if_splits)

lemma send_or_drop_target:
  assumes "send_or_drop uid m s = Inr s'" and "Clients s uid = Some p"
  shows "if full (Send_of s p)
         then Clients s' uid = None \<and> Send_of s' p = (Send_of s p)\<lparr>closed := True\<rparr>
         else Clients s' uid = Some p \<and> Send_of s' p = (Send_of s p)\<lparr>buf := buf (Send_of s p) @ [m]\<rparr>"
  using assms
  by (auto simp: send_or_drop_def deref_def full_def Send_of_def split: option.splits if_splits)

lemma send_or_drop_keeps_None:
  "send_or_drop uid m s = Inr s' \<Longrightarrow> Clients s k = None \<Longrightarrow> Clients s' k = None"
  by (auto simp: send_or_drop_def deref_def split: option.splits if_splits)

text \<open>The whole broadcast turn: the receiver's block, then the sender's.\<close>

lemma run_Broadcast_effect:
  assumes "hub_inv s"
  shows "\<exists>s'. run_Broadcast m s = Inr s' \<and> hub_inv s' \<and> users s' = users s \<and>
           messages s' = messages s \<and> inflight s' = inflight s \<and> logs s' = logs s \<and>
           length (heap s') = length (heap s) \<and>
           (\<forall>k. k \<noteq> ReceiverID m \<and> k \<noteq> SenderID m \<longrightarrow> Clients s' k = Clients s k) \<and>
           (\<forall>q. UserID (heap s' ! q) = UserID (heap s ! q)) \<and>
           (\<forall>k. Clients s k = None \<longrightarrow> Clients s' k = None) \<and>
           (\<forall>p. Clients s (ReceiverID m) = Some p \<and> full (Send_of s p) \<longrightarrow>
              Clients s' (ReceiverID m) = None \<and> closed (Send_of s' p)) \<and>
           (\<forall>p. Clients s (SenderID m) = Some p \<and> full (Send_of s p) \<longrightarrow>
              Clients s' (SenderID m) = None \<and> closed (Send_of s' p)) \<and>
           (SenderID m \<noteq> ReceiverID m \<longrightarrow>
              (\<forall>p. Clients s (SenderID m) = Some p \<and> \<not> full (Send_of s p) \<longrightarrow>
                 Clients s' (SenderID m) = Some p \<and>
                 Send_of s' p = (Send_of s p)\<lparr>buf := buf (Send_of s p) @ [m]\<rparr>) \<and>
              (\<forall>p. Clients s (ReceiverID m) = Some p \<and> \<not> full (Send_of s p) \<longrightarrow>
                 Clients s' (ReceiverID m) = Some p \<and>
                 Send_of s' p = (Send_of s p)\<lparr>buf := buf (Send_of s p) @ [m]\<rparr>))"
proof -
  let ?r = "ReceiverID m" and ?u = "SenderID m"
  from send_or_drop_ok [OF assms] obtain s1 where r1: "send_or_drop ?r m s = Inr s1" ..
  have inv1: "hub_inv s1" using hub_inv_send_or_drop [OF assms r1] .
  from send_or_drop_ok [OF inv1] obtain s2 where r2: "send_or_drop ?u m s1 = Inr s2" ..
  have inv2: "hub_inv s2" using hub_inv_send_or_drop [OF inv1 r2] .
  note fr1 = send_or_drop_frame [OF r1] and fr2 = send_or_drop_frame [OF r2]
  note reg1 = send_or_drop_Clients_other [OF r1] and reg2 = send_or_drop_Clients_other [OF r2]
  note hp1 = send_or_drop_heap_other [OF r1] and hp2 = send_or_drop_heap_other [OF r2]
  note uid1 = send_or_drop_UserID [OF r1] and uid2 = send_or_drop_UserID [OF r2]
  note tgt1 = send_or_drop_target [OF r1] and tgt2 = send_or_drop_target [OF r2]
  have none1: "Clients s ?r = None \<Longrightarrow> s1 = s"
    using r1 by (simp add: send_or_drop_absent)
  have none2: "Clients s1 ?u = None \<Longrightarrow> s2 = s1"
    using r2 by (simp add: send_or_drop_absent)
  have run: "run_Broadcast m s = Inr s2"
    by (simp add: run_Broadcast_def r1 r2)
  have keep_none: "\<And>k. Clients s k = None \<Longrightarrow> Clients s2 k = None"
  proof -
    fix k assume k: "Clients s k = None"
    have k1: "Clients s1 k = None"
    proof (cases "k = ?r")
      case True
      with k none1 show ?thesis by simp
    next
      case False
      with k reg1 show ?thesis by simp
    qed
    show "Clients s2 k = None"
    proof (cases "k = ?u")
      case True
      with k1 none2 show ?thesis by simp
    next
      case False
      with k1 reg2 show ?thesis by simp
    qed
  qed
  have recv_full: "\<And>p. Clients s ?r = Some p \<Longrightarrow> full (Send_of s p) \<Longrightarrow>
      Clients s2 ?r = None \<and> closed (Send_of s2 p)"
  proof -
    fix p assume p: "Clients s ?r = Some p" and f: "full (Send_of s p)"
    from tgt1 [OF p] f have a: "Clients s1 ?r = None" and b: "closed (Send_of s1 p)" by simp_all
    have notp: "Clients s1 ?u \<noteq> Some p"
      using hub_invD [OF inv1, of ?u p] b by (auto simp: Send_of_def)
    from hp2 [OF notp] b have c: "closed (Send_of s2 p)" by (simp add: Send_of_def)
    have "Clients s2 ?r = None"
    proof (cases "?r = ?u")
      case True
      with a none2 show ?thesis by simp
    next
      case False
      with a reg2 [of ?r] show ?thesis by simp
    qed
    with c show "Clients s2 ?r = None \<and> closed (Send_of s2 p)" by simp
  qed
  have send_full: "\<And>p. Clients s ?u = Some p \<Longrightarrow> full (Send_of s p) \<Longrightarrow>
      Clients s2 ?u = None \<and> closed (Send_of s2 p)"
  proof -
    fix p assume p: "Clients s ?u = Some p" and f: "full (Send_of s p)"
    show "Clients s2 ?u = None \<and> closed (Send_of s2 p)"
    proof (cases "?u = ?r")
      case True
      with recv_full [of p] p f show ?thesis by simp
    next
      case False
      then have a: "Clients s1 ?u = Some p" using reg1 [of ?u] p by simp
      have "Clients s ?r \<noteq> Some p" using hub_inv_inj [OF assms p] False by auto
      from hp1 [OF this] have "Send_of s1 p = Send_of s p" by (simp add: Send_of_def)
      with tgt2 [OF a] f show ?thesis by simp
    qed
  qed
  have send_room: "\<And>p. ?u \<noteq> ?r \<Longrightarrow> Clients s ?u = Some p \<Longrightarrow> \<not> full (Send_of s p) \<Longrightarrow>
      Clients s2 ?u = Some p \<and> Send_of s2 p = (Send_of s p)\<lparr>buf := buf (Send_of s p) @ [m]\<rparr>"
  proof -
    fix p assume ne: "?u \<noteq> ?r" and p: "Clients s ?u = Some p" and f: "\<not> full (Send_of s p)"
    from ne have a: "Clients s1 ?u = Some p" using reg1 [of ?u] p by simp
    have "Clients s ?r \<noteq> Some p" using hub_inv_inj [OF assms p] ne by auto
    from hp1 [OF this] have "Send_of s1 p = Send_of s p" by (simp add: Send_of_def)
    with tgt2 [OF a] f
    show "Clients s2 ?u = Some p \<and> Send_of s2 p = (Send_of s p)\<lparr>buf := buf (Send_of s p) @ [m]\<rparr>"
      by simp
  qed
  have recv_room: "\<And>p. ?u \<noteq> ?r \<Longrightarrow> Clients s ?r = Some p \<Longrightarrow> \<not> full (Send_of s p) \<Longrightarrow>
      Clients s2 ?r = Some p \<and> Send_of s2 p = (Send_of s p)\<lparr>buf := buf (Send_of s p) @ [m]\<rparr>"
  proof -
    fix p assume ne: "?u \<noteq> ?r" and p: "Clients s ?r = Some p" and f: "\<not> full (Send_of s p)"
    from tgt1 [OF p] f have a: "Clients s1 ?r = Some p"
      and b: "Send_of s1 p = (Send_of s p)\<lparr>buf := buf (Send_of s p) @ [m]\<rparr>" by simp_all
    have notp: "Clients s1 ?u \<noteq> Some p" using hub_inv_inj [OF inv1 a] ne by auto
    from hp2 [OF notp] b have "Send_of s2 p = (Send_of s p)\<lparr>buf := buf (Send_of s p) @ [m]\<rparr>"
      by (simp add: Send_of_def)
    moreover have "Clients s2 ?r = Some p" using reg2 [of ?r] ne a by simp
    ultimately show "Clients s2 ?r = Some p \<and> Send_of s2 p = (Send_of s p)\<lparr>buf := buf (Send_of s p) @ [m]\<rparr>"
      by simp
  qed
  have other: "\<And>k. k \<noteq> ?r \<Longrightarrow> k \<noteq> ?u \<Longrightarrow> Clients s2 k = Clients s k"
    using reg1 reg2 by simp
  show ?thesis
    apply (rule exI [of _ s2])
    apply (intro conjI allI impI)
    subgoal by (rule run)
    subgoal by (rule inv2)
    subgoal by (simp add: fr1 fr2)
    subgoal by (simp add: fr1 fr2)
    subgoal by (simp add: fr1 fr2)
    subgoal by (simp add: fr1 fr2)
    subgoal by (simp add: fr1 fr2)
    subgoal for k using other [of k] by simp
    subgoal for q by (simp add: uid1 uid2)
    subgoal for k by (rule keep_none)
    subgoal for p using recv_full [of p] by simp
    subgoal for p using recv_full [of p] by simp
    subgoal for p using send_full [of p] by simp
    subgoal for p using send_full [of p] by simp
    subgoal for p using send_room [of p] by simp
    subgoal for p using send_room [of p] by simp
    subgoal for p using recv_room [of p] by simp
    subgoal for p using recv_room [of p] by simp
    done
qed

lemma run_Broadcast_ok:
  "hub_inv s \<Longrightarrow> \<exists>s'. run_Broadcast m s = Inr s'"
  using run_Broadcast_effect [of s m] by blast

lemma run_Broadcast_frame:
  "run_Broadcast m s = Inr s' \<Longrightarrow>
     users s' = users s \<and> messages s' = messages s \<and> inflight s' = inflight s \<and> logs s' = logs s \<and>
     length (heap s') = length (heap s)"
  by (auto simp: run_Broadcast_def split: sum.splits dest!: send_or_drop_frame)

lemma run_Broadcast_UserID:
  "run_Broadcast m s = Inr s' \<Longrightarrow> UserID (heap s' ! q) = UserID (heap s ! q)"
  by (auto simp: run_Broadcast_def split: sum.splits dest!: send_or_drop_UserID [where q = q])

lemma run_Broadcast_keeps_None:
  "run_Broadcast m s = Inr s' \<Longrightarrow> Clients s k = None \<Longrightarrow> Clients s' k = None"
  by (auto simp: run_Broadcast_def split: sum.splits dest: send_or_drop_keeps_None)

lemma run_Broadcast_evicts:
  assumes "hub_inv s" and "run_Broadcast m s = Inr s'" and "Clients s uid = Some p"
    and "full (Send_of s p)" and "uid = ReceiverID m \<or> uid = SenderID m"
  shows "Clients s' uid = None \<and> closed (Send_of s' p)"
proof -
  from run_Broadcast_effect [OF assms(1), of m] obtain t where
    t: "run_Broadcast m s = Inr t"
    and r: "\<forall>p. Clients s (ReceiverID m) = Some p \<and> full (Send_of s p) \<longrightarrow>
              Clients t (ReceiverID m) = None \<and> closed (Send_of t p)"
    and u: "\<forall>p. Clients s (SenderID m) = Some p \<and> full (Send_of s p) \<longrightarrow>
              Clients t (SenderID m) = None \<and> closed (Send_of t p)"
    by (elim exE conjE) (rule that)
  from t assms(2) have "t = s'" by simp
  with r [rule_format, of p] u [rule_format, of p] assms(3-5) show ?thesis by auto
qed

text \<open>Every step of the controller keeps the invariant, so every state it reaches has it.\<close>

lemma hub_inv_init: "hub_inv (init_state us)"
  by (simp add: hub_inv_def init_state_def)

lemma hub_inv_WebSocketChat:
  assumes "hub_inv s" and "WebSocketChat jwt_Parse c tokenStr now s = Inr (s', ops, gs)"
  shows "hub_inv s'"
proof (cases "token_user jwt_Parse tokenStr")
  case None
  with assms show ?thesis by (simp add: WebSocketChat_def)
next
  case (Some userID)
  with assms(2) have s': "s' = s\<lparr>heap := heap s @ [\<lparr>Conn = c, UserID = userID, Send = \<lparr>buf = [], cap = 256, closed = False\<rparr>\<rparr>],
         Clients := (Clients s)(userID \<mapsto> length (heap s)),
         users := UpdateOne userID (\<lambda>u. u\<lparr>Online := True, LastSeen := now\<rparr>) (users s),
         logs := logs s @ [''User '' @ userID @ '' connected'']\<rparr>"
    by (auto simp: WebSocketChat_def run_Register_def deref_def Let_def)
  show ?thesis
    unfolding hub_inv_def
  proof (intro allI impI)
    fix uid p assume a: "Clients s' uid = Some p"
    show "p < length (heap s') \<and> UserID (heap s' ! p) = uid \<and> \<not> closed (Send (heap s' ! p))"
    proof (cases "uid = userID")
      case True
      with a show ?thesis by (auto simp: s' nth_append)
    next
      case False
      with a have "Clients s uid = Some p" by (simp add: s')
      from hub_invD [OF assms(1) this] show ?thesis by (simp add: s' nth_append)
    qed
  qed
qed

lemma hub_inv_run_Unregister:
  assumes "hub_inv s" and "run_Unregister now p s = Inr s'"
  shows "hub_inv s'"
proof (cases "deref s p")
  case None
  with assms show ?thesis by (simp add: run_Unregister_def)
next
  case (Some client)
  then have p: "p < length (heap s)" and c: "client = heap s ! p"
    by (auto simp: deref_def split: if_splits)
  show ?thesis
  proof (cases "Clients s (UserID client)")
    case None
    with Some assms show ?thesis by (simp add: run_Unregister_def)
  next
    case (Some q)
    with \<open>deref s p = Some client\<close> assms(2)
    have s': "s' = s\<lparr>Clients := (Clients s)(UserID client := None),
                           heap := (heap s)[p := client\<lparr>Send := (Send client)\<lparr>closed := True\<rparr>\<rparr>],
                           users := UpdateOne (UserID client) (\<lambda>u. u\<lparr>Online := False, LastSeen := now\<rparr>) (users s),
                           logs := logs s @ [''User '' @ UserID client @ '' disconnected'']\<rparr>"
      by (auto simp: run_Unregister_def split: if_splits)
    show ?thesis
      unfolding s' hub_inv_def using assms(1) p
      by (auto simp: hub_inv_def c UserID_heap_update Send_heap_update)
  qed
qed

lemma hub_inv_writePump_recv:
  assumes "hub_inv s" and "writePump_recv ok p s = Inr (s', ops)"
  shows "hub_inv s'"
proof (cases "deref s p")
  case None
  with assms show ?thesis by (simp add: writePump_recv_def)
next
  case (Some client)
  then have p: "p < length (heap s)" and c: "client = heap s ! p"
    by (auto simp: deref_def split: if_splits)
  show ?thesis
  proof (cases "buf (Send client)")
    case Nil
    with Some assms show ?thesis by (auto simp: writePump_recv_def split: if_splits)
  next
    case (Cons m rest)
    with Some assms(2) have s': "s' = s\<lparr>heap := (heap s)[p := client\<lparr>Send := (Send client)\<lparr>buf := rest\<rparr>\<rparr>]\<rparr>"
      by (auto simp: writePump_recv_def)
    show ?thesis
      unfolding s' hub_inv_def using assms(1) p
      by (auto simp: hub_inv_def c UserID_heap_update Send_heap_update)
  qed
qed

lemma readPump_body_hub:
  "readPump_body Validate uid msgReq env s = (s', out) \<Longrightarrow> Clients s' = Clients s \<and> heap s' = heap s \<and> inflight s' = inflight s"
  by (auto simp: readPump_body_def Let_def split: if_splits option.splits)

lemma hub_inv_cong:
  "hub_inv s \<Longrightarrow> Clients s' = Clients s \<Longrightarrow> heap s' = heap s \<Longrightarrow> hub_inv s'"
  by (simp add: hub_inv_def)

lemma hub_inv_run_Broadcast:
  assumes "hub_inv s" and "run_Broadcast m s = Inr s'"
  shows "hub_inv s'"
proof -
  from assms(2) obtain s1 where 1: "send_or_drop (ReceiverID m) m s = Inr s1"
    and 2: "send_or_drop (SenderID m) m s1 = Inr s'"
    by (auto simp: run_Broadcast_def split: sum.splits)
  from hub_inv_send_or_drop [OF hub_inv_send_or_drop [OF assms(1) 1] 2] show ?thesis .
qed

lemma hub_inv_exec:
  assumes "hub_inv s" and "exec jwt_Parse Validate a s = Inr s'"
  shows "hub_inv s'"
proof (cases a)
  case (Connect c tokenStr now)
  with assms(2) obtain ops gs where "WebSocketChat jwt_Parse c tokenStr now s = Inr (s', ops, gs)"
    by (auto split: sum.splits)
  from hub_inv_WebSocketChat [OF assms(1) this] show ?thesis .
next
  case (Frame p msgReq env)
  show ?thesis
  proof (cases "deref s p")
    case None
    with Frame assms show ?thesis by simp
  next
    case (Some client)
    obtain t out where b: "readPump_body Validate (UserID client) msgReq env s = (t, out)"
      by (cases "readPump_body Validate (UserID client) msgReq env s")
    from readPump_body_hub [OF b] assms(1) have "hub_inv t" by (auto intro: hub_inv_cong)
    moreover from Frame Some b assms(2) have "Clients s' = Clients t \<and> heap s' = heap t"
      by (cases out) auto
    ultimately show ?thesis by (auto intro: hub_inv_cong)
  qed
next
  case (HubBroadcast m)
  show ?thesis
  proof (cases "m \<in> set (inflight s)")
    case True
    have "hub_inv (s\<lparr>inflight := remove1 m (inflight s)\<rparr>)"
      using assms(1) by (simp add: hub_inv_def)
    moreover from HubBroadcast True assms(2)
    have "run_Broadcast m (s\<lparr>inflight := remove1 m (inflight s)\<rparr>) = Inr s'" by simp
    ultimately show ?thesis by (rule hub_inv_run_Broadcast)
  next
    case False
    with HubBroadcast assms show ?thesis by simp
  qed
next
  case (Disconnect p now)
  show ?thesis
  proof (cases "p < length (heap s)")
    case True
    with Disconnect assms(2) have "run_Unregister now p s = Inr s'" by simp
    from hub_inv_run_Unregister [OF assms(1) this] show ?thesis .
  next
    case False
    with Disconnect assms show ?thesis by simp
  qed
next
  case (WriteRecv p ok)
  show ?thesis
  proof (cases "writePump_recv ok p s")
    case (Inl e)
    with WriteRecv assms show ?thesis by simp
  next
    case (Inr r)
    obtain t ops where r: "r = (t, ops)" by (cases r)
    with Inr WriteRecv assms(2) have "t = s'" by simp
    with hub_inv_writePump_recv [OF assms(1)] Inr r show ?thesis by simp
  qed
qed

lemma hub_inv_execs:
  "hub_inv s \<Longrightarrow> execs jwt_Parse Validate as s = Inr s' \<Longrightarrow> hub_inv s'"
proof (induction as arbitrary: s)
  case Nil
  then show ?case by simp
next
  case (Cons a as)
  from Cons.prems(2) obtain s1 where 1: "exec jwt_Parse Validate a s = Inr s1"
    and 2: "execs jwt_Parse Validate as s1 = Inr s'"
    by (auto split: sum.splits)
  from Cons.IH [OF hub_inv_exec [OF Cons.prems(1) 1] 2] show ?case .
qed

lemma hub_inv_reachable:
  "execs jwt_Parse Validate as (init_state us) = Inr s \<Longrightarrow> hub_inv s"
  by (rule hub_inv_execs [OF hub_inv_init])

section \<open>Messages addressed to their own sender\<close>

lemma no_self_init: "no_self_state (init_state us)"
  by (simp add: no_self_state_def init_state_def)

lemma no_self_heap_update:
  assumes "\<forall>c \<in> set h. \<forall>m \<in> set (buf (Send c)). \<not> self_addressed m"
    and "\<forall>m \<in> set (buf (Send c')). \<not> self_addressed m"
  shows "\<forall>c \<in> set (h[p := c']). \<forall>m \<in> set (buf (Send c)). \<not> self_addressed m"
proof
  fix c assume "c \<in> set (h[p := c'])"
  then have "c = c' \<or> c \<in> set h"
    using set_update_subset_insert [of h p c'] by auto
  with assms show "\<forall>m \<in> set (buf (Send c)). \<not> self_addressed m" by auto
qed

lemma no_self_readPump_body:
  assumes "no_self_state s" and "readPump_body Validate uid msgReq env s = (s', out)"
  shows "no_self_state s' \<and> (\<forall>m. out = Some m \<longrightarrow> \<not> self_addressed m)"
  using assms
  by (auto simp: readPump_body_def no_self_state_def self_addressed_def Let_def
      split: if_splits option.splits)

lemma no_self_send_or_drop:
  assumes "no_self_state s" and "\<not> self_addressed m" and "send_or_drop uid m s = Inr s'"
  shows "no_self_state s'"
proof (cases "Clients s uid")
  case None
  with assms show ?thesis by (simp add: send_or_drop_def)
next
  case (Some p)
  show ?thesis
  proof (cases "deref s p")
    case None
    with Some assms show ?thesis by (simp add: send_or_drop_def)
  next
    case (Some client)
    then have p: "p < length (heap s)" and c: "client = heap s ! p"
      by (auto simp: deref_def split: if_splits)
    then have cin: "client \<in> set (heap s)" by simp
    from assms(1) have h: "\<forall>c \<in> set (heap s). \<forall>m \<in> set (buf (Send c)). \<not> self_addressed m"
      by (simp add: no_self_state_def)
    with cin have old: "\<forall>m \<in> set (buf (Send client)). \<not> self_addressed m" by blast
    from assms(3) \<open>Clients s uid = Some p\<close> Some
    obtain ch where s': "s' = s\<lparr>heap := (heap s)[p := client\<lparr>Send := ch\<rparr>]\<rparr> \<or>
          s' = s\<lparr>Clients := (Clients s)(uid := None), heap := (heap s)[p := client\<lparr>Send := ch\<rparr>]\<rparr>"
      and ch: "ch = (Send client)\<lparr>buf := buf (Send client) @ [m]\<rparr> \<or> ch = (Send client)\<lparr>closed := True\<rparr>"
      by (auto simp: send_or_drop_def split: if_splits)
    from ch old assms(2) have "\<forall>m \<in> set (buf (Send (client\<lparr>Send := ch\<rparr>))). \<not> self_addressed m"
      by auto
    from no_self_heap_update [OF h this, of p]
    have "\<forall>c \<in> set ((heap s)[p := client\<lparr>Send := ch\<rparr>]). \<forall>m \<in> set (buf (Send c)). \<not> self_addressed m" .
    with s' assms(1) show ?thesis
      by (auto simp: no_self_state_def)
  qed
qed

lemma no_self_run_Broadcast:
  assumes "no_self_state s" and "\<not> self_addressed m" and "run_Broadcast m s = Inr s'"
  shows "no_self_state s'"
proof -
  from assms(3) obtain s1 where 1: "send_or_drop (ReceiverID m) m s = Inr s1"
    and 2: "send_or_drop (SenderID m) m s1 = Inr s'"
    by (auto simp: run_Broadcast_def split: sum.splits)
  from no_self_send_or_drop [OF no_self_send_or_drop [OF assms(1,2) 1] assms(2) 2] show ?thesis .
qed

lemma no_self_run_Unregister:
  assumes "no_self_state s" and "run_Unregister now p s = Inr s'"
  shows "no_self_state s'"
proof (cases "deref s p")
  case None
  with assms show ?thesis by (simp add: run_Unregister_def)
next
  case (Some client)
  then have p: "p < length (heap s)" and c: "client = heap s ! p"
    by (auto simp: deref_def split: if_splits)
  then have cin: "client \<in> set (heap s)" by simp
  from assms(1) have h: "\<forall>c \<in> set (heap s). \<forall>m \<in> set (buf (Send c)). \<not> self_addressed m"
    by (simp add: no_self_state_def)
  with cin have "\<forall>m \<in> set (buf (Send (client\<lparr>Send := (Send client)\<lparr>closed := True\<rparr>\<rparr>))). \<not> self_addressed m"
    by auto
  from no_self_heap_update [OF h this, of p]
  have "\<forall>c \<in> set ((heap s)[p := client\<lparr>Send := (Send client)\<lparr>closed := True\<rparr>\<rparr>]).
          \<forall>m \<in> set (buf (Send c)). \<not> self_addressed m" .
  with assms Some show ?thesis
    by (auto simp: run_Unregister_def no_self_state_def split: option.splits if_splits)
qed

lemma no_self_writePump_recv:
  assumes "no_self_state s" and "writePump_recv ok p s = Inr (s', ops)"
  shows "no_self_state s'"
proof (cases "deref s p")
  case None
  with assms show ?thesis by (simp add: writePump_recv_def)
next
  case (Some client)
  then have p: "p < length (heap s)" and c: "client = heap s ! p"
    by (auto simp: deref_def split: if_splits)
  then have cin: "client \<in> set (heap s)" by simp
  from assms(1) have h: "\<forall>c \<in> set (heap s). \<forall>m \<in> set (buf (Send c)). \<not> self_addressed m"
    by (simp add: no_self_state_def)
  show ?thesis
  proof (cases "buf (Send client)")
    case Nil
    with Some assms show ?thesis by (auto simp: writePump_recv_def split: if_splits)
  next
    case (Cons m rest)
    with h cin have "\<forall>m \<in> set (buf (Send (client\<lparr>Send := (Send client)\<lparr>buf := rest\<rparr>\<rparr>))). \<not> self_addressed m"
      by auto
    from no_self_heap_update [OF h this, of p]
    have "\<forall>c \<in> set ((heap s)[p := client\<lparr>Send := (Send client)\<lparr>buf := rest\<rparr>\<rparr>]).
            \<forall>m \<in> set (buf (Send c)). \<not> self_addressed m" .
    with assms Some Cons show ?thesis
      by (auto simp: writePump_recv_def no_self_state_def)
  qed
qed

lemma no_self_WebSocketChat:
  assumes "no_self_state s" and "WebSocketChat jwt_Parse c tokenStr now s = Inr (s', ops, gs)"
  shows "no_self_state s'"
proof (cases "token_user jwt_Parse tokenStr")
  case None
  with assms show ?thesis by (simp add: WebSocketChat_def)
next
  case (Some userID)
  with assms show ?thesis
    by (auto simp: WebSocketChat_def run_Register_def deref_def Let_def no_self_state_def)
qed

lemma no_self_exec:
  assumes "no_self_state s" and "exec jwt_Parse Validate a s = Inr s'"
  shows "no_self_state s'"
proof (cases a)
  case (Connect c tokenStr now)
  with assms(2) obtain ops gs where "WebSocketChat jwt_Parse c tokenStr now s = Inr (s', ops, gs)"
    by (auto split: sum.splits)
  from no_self_WebSocketChat [OF assms(1) this] show ?thesis .
next
  case (Frame p msgReq env)
  show ?thesis
  proof (cases "deref s p")
    case None
    with Frame assms show ?thesis by simp
  next
    case (Some client)
    obtain t out where b: "readPump_body Validate (UserID client) msgReq env s = (t, out)"
      by (cases "readPump_body Validate (UserID client) msgReq env s")
    from no_self_readPump_body [OF assms(1) b]
    have t: "no_self_state t" and o: "\<forall>m. out = Some m \<longrightarrow> \<not> self_addressed m" by simp_all
    show ?thesis
    proof (cases out)
      case None
      with Frame Some b assms(2) t show ?thesis by simp
    next
      case (Some m)
      with o have "\<not> self_addressed m" by simp
      moreover from Frame \<open>deref s p = Some client\<close> b Some assms(2)
      have "s' = t\<lparr>inflight := inflight t @ [m]\<rparr>" by simp
      ultimately show ?thesis using t by (auto simp: no_self_state_def)
    qed
  qed
next
  case (HubBroadcast m)
  show ?thesis
  proof (cases "m \<in> set (inflight s)")
    case True
    with assms(1) have m: "\<not> self_addressed m" by (simp add: no_self_state_def)
    have "no_self_state (s\<lparr>inflight := remove1 m (inflight s)\<rparr>)"
      using assms(1) by (auto simp: no_self_state_def dest: notin_set_remove1)
    moreover from HubBroadcast True assms(2)
    have "run_Broadcast m (s\<lparr>inflight := remove1 m (inflight s)\<rparr>) = Inr s'" by simp
    ultimately show ?thesis using m by (auto intro: no_self_run_Broadcast)
  next
    case False
    with HubBroadcast assms show ?thesis by simp
  qed
next
  case (Disconnect p now)
  show ?thesis
  proof (cases "p < length (heap s)")
    case True
    with Disconnect assms(2) have "run_Unregister now p s = Inr s'" by simp
    from no_self_run_Unregister [OF assms(1) this] show ?thesis .
  next
    case False
    with Disconnect assms show ?thesis by simp
  qed
next
  case (WriteRecv p ok)
  show ?thesis
  proof (cases "writePump_recv ok p s")
    case (Inl e)
    with WriteRecv assms show ?thesis by simp
  next
    case (Inr r)
    obtain t ops where r: "r = (t, ops)" by (cases r)
    with Inr WriteRecv assms(2) have "t = s'" by simp
    with no_self_writePump_recv [OF assms(1)] Inr r show ?thesis by simp
  qed
qed

lemma no_self_execs:
  "no_self_state s \<Longrightarrow> execs jwt_Parse Validate as s = Inr s' \<Longrightarrow> no_self_state s'"
proof (induction as arbitrary: s)
  case Nil
  then show ?case by simp
next
  case (Cons a as)
  from Cons.prems(2) obtain s1 where 1: "exec jwt_Parse Validate a s = Inr s1"
    and 2: "execs jwt_Parse Validate as s1 = Inr s'"
    by (auto split: sum.splits)
  from Cons.IH [OF no_self_exec [OF Cons.prems(1) 1] 2] show ?case .
qed

section \<open>What later steps do to a user who is not registered and to a closed queue\<close>

lemma readPump_body_users:
  "readPump_body Validate uid msgReq env s = (s', out) \<Longrightarrow>
     users s' = users s \<or> users s' = UpdateOne uid (\<lambda>u. u\<lparr>LastSeen := seen_now env\<rparr>) (users s)"
  by (auto simp: readPump_body_def Let_def split: if_splits option.splits)

lemma readPump_body_Online:
  assumes "readPump_body Validate uid msgReq env s = (s', out)"
  shows "map_option Online (users s' k) = map_option Online (users s k)"
  using readPump_body_users [OF assms] by (auto simp: Online_UpdateOne_LastSeen)

lemma frozen_WebSocketChat:
  assumes "Clients s uid = None" and "token_user jwt_Parse tokenStr \<noteq> Some uid"
    and "WebSocketChat jwt_Parse c tokenStr now s = Inr (s', ops, gs)"
  shows "Clients s' uid = None \<and> users s' uid = users s uid"
proof (cases "token_user jwt_Parse tokenStr")
  case None
  with assms show ?thesis by (simp add: WebSocketChat_def)
next
  case (Some userID)
  with assms(2) have "userID \<noteq> uid" by simp
  with Some assms(1,3) show ?thesis
    by (auto simp: WebSocketChat_def run_Register_def deref_def Let_def UpdateOne_other)
qed

lemma frozen_run_Unregister:
  assumes "Clients s uid = None" and "run_Unregister now p s = Inr s'"
  shows "Clients s' uid = None \<and> users s' uid = users s uid"
proof (cases "deref s p")
  case None
  with assms show ?thesis by (simp add: run_Unregister_def)
next
  case (Some client)
  show ?thesis
  proof (cases "UserID client = uid")
    case True
    with Some assms show ?thesis by (simp add: run_Unregister_def)
  next
    case False
    then have "uid \<noteq> UserID client" by simp
    with Some assms show ?thesis
      by (auto simp: run_Unregister_def UpdateOne_other split: option.splits if_splits)
  qed
qed

lemma writePump_recv_hub:
  "writePump_recv ok p s = Inr (s', ops) \<Longrightarrow> Clients s' = Clients s \<and> users s' = users s"
  by (auto simp: writePump_recv_def split: option.splits list.splits if_splits)

lemma frozen_exec:
  assumes "Clients s uid = None" and "\<not> connects jwt_Parse uid a"
    and "exec jwt_Parse Validate a s = Inr s'"
  shows "Clients s' uid = None \<and> map_option Online (users s' uid) = map_option Online (users s uid)"
proof (cases a)
  case (Connect c tokenStr now)
  with assms(3) obtain ops gs where w: "WebSocketChat jwt_Parse c tokenStr now s = Inr (s', ops, gs)"
    by (auto split: sum.splits)
  from Connect assms(2) have "token_user jwt_Parse tokenStr \<noteq> Some uid" by simp
  from frozen_WebSocketChat [OF assms(1) this w] show ?thesis by simp
next
  case (Frame p msgReq env)
  show ?thesis
  proof (cases "deref s p")
    case None
    with Frame assms show ?thesis by simp
  next
    case (Some client)
    obtain t out where b: "readPump_body Validate (UserID client) msgReq env s = (t, out)"
      by (cases "readPump_body Validate (UserID client) msgReq env s")
    from Frame Some b assms(3) have "Clients s' = Clients t \<and> users s' = users t"
      by (cases out) auto
    with readPump_body_hub [OF b] readPump_body_Online [OF b, of uid] assms(1)
    show ?thesis by simp
  qed
next
  case (HubBroadcast m)
  show ?thesis
  proof (cases "m \<in> set (inflight s)")
    case True
    with HubBroadcast assms(3)
    have r: "run_Broadcast m (s\<lparr>inflight := remove1 m (inflight s)\<rparr>) = Inr s'" by simp
    from run_Broadcast_keeps_None [OF r, of uid] run_Broadcast_frame [OF r] assms(1)
    show ?thesis by simp
  next
    case False
    with HubBroadcast assms show ?thesis by simp
  qed
next
  case (Disconnect p now)
  show ?thesis
  proof (cases "p < length (heap s)")
    case True
    with Disconnect assms(3) have "run_Unregister now p s = Inr s'" by simp
    from frozen_run_Unregister [OF assms(1) this] show ?thesis by simp
  next
    case False
    with Disconnect assms show ?thesis by simp
  qed
next
  case (WriteRecv p ok)
  show ?thesis
  proof (cases "writePump_recv ok p s")
    case (Inl e)
    with WriteRecv assms show ?thesis by simp
  next
    case (Inr r)
    obtain t ops where r: "r = (t, ops)" by (cases r)
    with Inr WriteRecv assms(3) have "t = s'" by simp
    with writePump_recv_hub [of ok p s s' ops] Inr r assms(1) show ?thesis by simp
  qed
qed

lemma frozen_execs:
  "Clients s uid = None \<Longrightarrow> \<forall>a \<in> set as. \<not> connects jwt_Parse uid a \<Longrightarrow>
   execs jwt_Parse Validate as s = Inr s' \<Longrightarrow>
   Clients s' uid = None \<and> map_option Online (users s' uid) = map_option Online (users s uid)"
proof (induction as arbitrary: s)
  case Nil
  then show ?case by simp
next
  case (Cons a as)
  from Cons.prems(3) obtain s1 where 1: "exec jwt_Parse Validate a s = Inr s1"
    and 2: "execs jwt_Parse Validate as s1 = Inr s'"
    by (auto split: sum.splits)
  from Cons.prems(2) have a: "\<not> connects jwt_Parse uid a" and as: "\<forall>a \<in> set as. \<not> connects jwt_Parse uid a"
    by simp_all
  from frozen_exec [OF Cons.prems(1) a 1]
  have n1: "Clients s1 uid = None" and o1: "map_option Online (users s1 uid) = map_option Online (users s uid)"
    by simp_all
  from Cons.IH [OF n1 as 2] o1 show ?case by simp
qed

lemma closed_send_or_drop:
  assumes "p < length (heap s)" and "closed (Send_of s p)" and "send_or_drop uid m s = Inr s'"
  shows "p < length (heap s') \<and> closed (Send_of s' p)"
  using assms
  by (auto simp: send_or_drop_def deref_def Send_of_def closed_heap_update
      split: option.splits if_splits)

lemma closed_run_Broadcast:
  assumes "p < length (heap s)" and "closed (Send_of s p)" and "run_Broadcast m s = Inr s'"
  shows "p < length (heap s') \<and> closed (Send_of s' p)"
proof -
  from assms(3) obtain s1 where 1: "send_or_drop (ReceiverID m) m s = Inr s1"
    and 2: "send_or_drop (SenderID m) m s1 = Inr s'"
    by (auto simp: run_Broadcast_def split: sum.splits)
  from closed_send_or_drop [OF assms(1,2) 1] have "p < length (heap s1)" "closed (Send_of s1 p)"
    by simp_all
  from closed_send_or_drop [OF this 2] show ?thesis .
qed

lemma closed_run_Unregister:
  assumes "p < length (heap s)" and "closed (Send_of s p)" and "run_Unregister now q s = Inr s'"
  shows "p < length (heap s') \<and> closed (Send_of s' p)"
  using assms
  by (auto simp: run_Unregister_def deref_def Send_of_def closed_heap_update
      split: option.splits if_splits)

lemma closed_writePump_recv:
  assumes "p < length (heap s)" and "closed (Send_of s p)" and "writePump_recv ok q s = Inr (s', ops)"
  shows "p < length (heap s') \<and> closed (Send_of s' p)"
  using assms
  by (auto simp: writePump_recv_def deref_def Send_of_def closed_heap_update
      split: option.splits if_splits list.splits)

lemma closed_WebSocketChat:
  assumes "p < length (heap s)" and "closed (Send_of s p)"
    and "WebSocketChat jwt_Parse c tokenStr now s = Inr (s', ops, gs)"
  shows "p < length (heap s') \<and> closed (Send_of s' p)"
  using assms
  by (auto simp: WebSocketChat_def run_Register_def deref_def Send_of_def Let_def nth_append
      split: option.splits)

lemma closed_exec:
  assumes "p < length (heap s)" and "closed (Send_of s p)" and "exec jwt_Parse Validate a s = Inr s'"
  shows "p < length (heap s') \<and> closed (Send_of s' p)"
proof (cases a)
  case (Connect c tokenStr now)
  with assms(3) obtain ops gs where "WebSocketChat jwt_Parse c tokenStr now s = Inr (s', ops, gs)"
    by (auto split: sum.splits)
  from closed_WebSocketChat [OF assms(1,2) this] show ?thesis .
next
  case (Frame q msgReq env)
  show ?thesis
  proof (cases "deref s q")
    case None
    with Frame assms show ?thesis by simp
  next
    case (Some client)
    obtain t out where b: "readPump_body Validate (UserID client) msgReq env s = (t, out)"
      by (cases "readPump_body Validate (UserID client) msgReq env s")
    from Frame Some b assms(3) have "heap s' = heap t"
      by (cases out) auto
    with readPump_body_hub [OF b] assms(1,2) show ?thesis by (simp add: Send_of_def)
  qed
next
  case (HubBroadcast m)
  show ?thesis
  proof (cases "m \<in> set (inflight s)")
    case True
    with HubBroadcast assms(3)
    have r: "run_Broadcast m (s\<lparr>inflight := remove1 m (inflight s)\<rparr>) = Inr s'" by simp
    from assms(1,2) have "p < length (heap (s\<lparr>inflight := remove1 m (inflight s)\<rparr>))"
      "closed (Send_of (s\<lparr>inflight := remove1 m (inflight s)\<rparr>) p)"
      by (simp_all add: Send_of_def)
    from closed_run_Broadcast [OF this r] show ?thesis .
  next
    case False
    with HubBroadcast assms show ?thesis by simp
  qed
next
  case (Disconnect q now)
  show ?thesis
  proof (cases "q < length (heap s)")
    case True
    with Disconnect assms(3) have "run_Unregister now q s = Inr s'" by simp
    from closed_run_Unregister [OF assms(1,2) this] show ?thesis .
  next
    case False
    with Disconnect assms show ?thesis by simp
  qed
next
  case (WriteRecv q ok)
  show ?thesis
  proof (cases "writePump_recv ok q s")
    case (Inl e)
    with WriteRecv assms show ?thesis by simp
  next
    case (Inr r)
    obtain t ops where r: "r = (t, ops)" by (cases r)
    with Inr WriteRecv assms(3) have "t = s'" by simp
    with closed_writePump_recv [OF assms(1,2)] Inr r show ?thesis by simp
  qed
qed

lemma closed_execs:
  "p < length (heap s) \<Longrightarrow> closed (Send_of s p) \<Longrightarrow> execs jwt_Parse Validate as s = Inr s' \<Longrightarrow>
   p < length (heap s') \<and> closed (Send_of s' p)"
proof (induction as arbitrary: s)
  case Nil
  then show ?case by simp
next
  case (Cons a as)
  from Cons.prems(3) obtain s1 where 1: "exec jwt_Parse Validate a s = Inr s1"
    and 2: "execs jwt_Parse Validate as s1 = Inr s'"
    by (auto split: sum.splits)
  from closed_exec [OF Cons.prems(1,2) 1] have "p < length (heap s1)" "closed (Send_of s1 p)"
    by simp_all
  from Cons.IH [OF this 2] show ?case .
qed

lemma run_Unregister_closed:
  assumes "p < length (heap s)" and "closed (Send_of s p)"
  shows "run_Unregister now p s = Inr s \<or> run_Unregister now p s = Inl CloseOfClosedChannel"
  using assms by (simp add: run_Unregister_def deref_def Send_of_def split: option.splits)

lemma run_Unregister_Inr:
  assumes "deref s p = Some client" and "run_Unregister now p s = Inr s'"
  shows "(Clients s (UserID client) = None \<and> s' = s) \<or>
         (Clients s (UserID client) \<noteq> None \<and> \<not> closed (Send client) \<and>
          s' = s\<lparr>Clients := (Clients s)(UserID client := None),
                 heap := (heap s)[p := client\<lparr>Send := (Send client)\<lparr>closed := True\<rparr>\<rparr>],
                 users := UpdateOne (UserID client) (\<lambda>u. u\<lparr>Online := False, LastSeen := now\<rparr>) (users s),
                 logs := logs s @ [''User '' @ UserID client @ '' disconnected'']\<rparr>)"
proof (cases "Clients s (UserID client)")
  case None
  with assms show ?thesis by (simp add: run_Unregister_def)
next
  case (Some q)
  show ?thesis
  proof (cases "closed (Send client)")
    case True
    with Some assms show ?thesis by (simp add: run_Unregister_def)
  next
    case False
    with Some assms show ?thesis by (simp add: run_Unregister_def)
  qed
qed

text \<open>A registered user is stored as online, in every state the controller reaches.\<close>

lemma online_inv_init: "online_inv (init_state us)"
  by (simp add: online_inv_def init_state_def)

lemma online_invD:
  "online_inv s \<Longrightarrow> Clients s uid \<noteq> None \<Longrightarrow> users s uid = Some u \<Longrightarrow> Online u"
  by (auto simp: online_inv_def)

lemma online_inv_mono:
  assumes "online_inv s"
    and "\<And>k. Clients s' k \<noteq> None \<Longrightarrow> Clients s k \<noteq> None"
    and "\<And>k. map_option Online (users s' k) = map_option Online (users s k)"
  shows "online_inv s'"
  unfolding online_inv_def
proof (intro allI impI)
  fix uid u assume a: "Clients s' uid \<noteq> None \<and> users s' uid = Some u"
  with assms(2) have r: "Clients s uid \<noteq> None" by simp
  from a assms(3) [of uid] obtain v where v: "users s uid = Some v" and "Online v = Online u"
    by (cases "users s uid") auto
  with online_invD [OF assms(1) r v] show "Online u" by simp
qed

lemma online_inv_WebSocketChat:
  assumes "online_inv s" and "WebSocketChat jwt_Parse c tokenStr now s = Inr (s', ops, gs)"
  shows "online_inv s'"
proof (cases "token_user jwt_Parse tokenStr")
  case None
  with assms show ?thesis by (simp add: WebSocketChat_def)
next
  case (Some userID)
  with assms(2) have c: "Clients s' = (Clients s)(userID \<mapsto> length (heap s))"
    and u: "users s' = UpdateOne userID (\<lambda>u. u\<lparr>Online := True, LastSeen := now\<rparr>) (users s)"
    by (auto simp: WebSocketChat_def run_Register_def deref_def Let_def)
  show ?thesis
    unfolding online_inv_def
  proof (intro allI impI)
    fix uid v assume a: "Clients s' uid \<noteq> None \<and> users s' uid = Some v"
    show "Online v"
    proof (cases "uid = userID")
      case True
      with a u show ?thesis by (auto simp: UpdateOne_same)
    next
      case False
      with a c u have "Clients s uid \<noteq> None" "users s uid = Some v"
        by (simp_all add: UpdateOne_other)
      with online_invD [OF assms(1)] show ?thesis by blast
    qed
  qed
qed

lemma online_inv_run_Unregister:
  assumes "online_inv s" and "run_Unregister now p s = Inr s'"
  shows "online_inv s'"
proof (cases "deref s p")
  case None
  with assms show ?thesis by (simp add: run_Unregister_def)
next
  case (Some client)
  from run_Unregister_Inr [OF Some assms(2)] show ?thesis
  proof
    assume "Clients s (UserID client) = None \<and> s' = s"
    with assms(1) show ?thesis by simp
  next
    assume a: "Clients s (UserID client) \<noteq> None \<and> \<not> closed (Send client) \<and>
          s' = s\<lparr>Clients := (Clients s)(UserID client := None),
                 heap := (heap s)[p := client\<lparr>Send := (Send client)\<lparr>closed := True\<rparr>\<rparr>],
                 users := UpdateOne (UserID client) (\<lambda>u. u\<lparr>Online := False, LastSeen := now\<rparr>) (users s),
                 logs := logs s @ [''User '' @ UserID client @ '' disconnected'']\<rparr>"
    then have c: "Clients s' = (Clients s)(UserID client := None)"
      and u: "users s' = UpdateOne (UserID client) (\<lambda>u. u\<lparr>Online := False, LastSeen := now\<rparr>) (users s)"
      by simp_all
    show ?thesis
      unfolding online_inv_def
    proof (intro allI impI)
      fix uid v assume b: "Clients s' uid \<noteq> None \<and> users s' uid = Some v"
      with c have ne: "uid \<noteq> UserID client" by auto
      with b c u have "Clients s uid \<noteq> None" "users s uid = Some v"
        by (simp_all add: UpdateOne_other)
      with online_invD [OF assms(1)] show "Online v" by blast
    qed
  qed
qed

lemma online_inv_exec:
  assumes "online_inv s" and "exec jwt_Parse Validate a s = Inr s'"
  shows "online_inv s'"
proof (cases a)
  case (Connect c tokenStr now)
  with assms(2) obtain ops gs where "WebSocketChat jwt_Parse c tokenStr now s = Inr (s', ops, gs)"
    by (auto split: sum.splits)
  from online_inv_WebSocketChat [OF assms(1) this] show ?thesis .
next
  case (Frame q msgReq env)
  show ?thesis
  proof (cases "deref s q")
    case None
    with Frame assms show ?thesis by simp
  next
    case (Some client)
    obtain t out where b: "readPump_body Validate (UserID client) msgReq env s = (t, out)"
      by (cases "readPump_body Validate (UserID client) msgReq env s")
    from Frame Some b assms(2) have e: "Clients s' = Clients t \<and> users s' = users t"
      by (cases out) auto
    show ?thesis
    proof (rule online_inv_mono [OF assms(1)])
      fix k assume "Clients s' k \<noteq> None"
      with e readPump_body_hub [OF b] show "Clients s k \<noteq> None" by simp
    next
      fix k show "map_option Online (users s' k) = map_option Online (users s k)"
        using e readPump_body_Online [OF b, of k] by simp
    qed
  qed
next
  case (HubBroadcast m)
  show ?thesis
  proof (cases "m \<in> set (inflight s)")
    case True
    with HubBroadcast assms(2)
    have r: "run_Broadcast m (s\<lparr>inflight := remove1 m (inflight s)\<rparr>) = Inr s'" by simp
    show ?thesis
    proof (rule online_inv_mono [OF assms(1)])
      fix k assume "Clients s' k \<noteq> None"
      with run_Broadcast_keeps_None [OF r, of k] show "Clients s k \<noteq> None" by auto
    next
      fix k show "map_option Online (users s' k) = map_option Online (users s k)"
        using run_Broadcast_frame [OF r] by simp
    qed
  next
    case False
    with HubBroadcast assms show ?thesis by simp
  qed
next
  case (Disconnect q now)
  show ?thesis
  proof (cases "q < length (heap s)")
    case True
    with Disconnect assms(2) have "run_Unregister now q s = Inr s'" by simp
    from online_inv_run_Unregister [OF assms(1) this] show ?thesis .
  next
    case False
    with Disconnect assms show ?thesis by simp
  qed
next
  case (WriteRecv q ok)
  show ?thesis
  proof (cases "writePump_recv ok q s")
    case (Inl e)
    with WriteRecv assms show ?thesis by simp
  next
    case (Inr r)
    obtain t ops where r: "r = (t, ops)" by (cases r)
    with Inr WriteRecv assms(2) have "t = s'" by simp
    with writePump_recv_hub [of ok q s s' ops] Inr r have "Clients s' = Clients s \<and> users s' = users s"
      by simp
    with assms(1) show ?thesis by (simp add: online_inv_def)
  qed
qed

lemma online_inv_execs:
  "online_inv s \<Longrightarrow> execs jwt_Parse Validate as s = Inr s' \<Longrightarrow> online_inv s'"
proof (induction as arbitrary: s)
  case Nil
  then show ?case by simp
next
  case (Cons a as)
  from Cons.prems(2) obtain s1 where 1: "exec jwt_Parse Validate a s = Inr s1"
    and 2: "execs jwt_Parse Validate as s1 = Inr s'"
    by (auto split: sum.splits)
  from Cons.IH [OF online_inv_exec [OF Cons.prems(1) 1] 2] show ?case .
qed

lemma online_inv_reachable:
  "execs jwt_Parse Validate as (init_state us) = Inr s \<Longrightarrow> online_inv s"
  by (rule online_inv_execs [OF online_inv_init])






section \<open>Runs on concrete inputs\<close>

lemma run_hi: "execs parse0 validate0 trace_hi (init_state users0) = Inr st_hi"
  by (simp add: trace_hi_def st_hi_def eval_defs fun_upd_twist)

lemma run_ab: "execs parse0 validate0 [Connect 1 ''a'' 10, Connect 2 ''b'' 20] (init_state users0) = Inr st_ab"
  by (simp add: st_ab_def eval_defs fun_upd_twist)

lemma execs_append:
  "execs jwt_Parse Validate (xs @ ys) s =
     (case execs jwt_Parse Validate xs s of Inl e \<Rightarrow> Inl e | Inr s' \<Rightarrow> execs jwt_Parse Validate ys s')"
  by (induction xs arbitrary: s) (auto split: sum.splits)

lemma fill_first: "execs parse0 validate0 fill_round st_ab = Inr (fill_state (Suc 0))"
  by (simp add: fill_round_def fill_state_def st_ab_def req_old_def env_old_def eval_defs fun_upd_twist)

lemma fill_step:
  "n < 256 \<Longrightarrow> execs parse0 validate0 fill_round (fill_state n) = Inr (fill_state (Suc n))"
  by (simp add: fill_round_def fill_state_def req_old_def env_old_def eval_defs fun_upd_twist
      replicate_append_same)

lemma fill_many:
  "n + k \<le> 256 \<Longrightarrow>
   execs parse0 validate0 (concat (replicate k fill_round)) (fill_state n) = Inr (fill_state (n + k))"
proof (induction k arbitrary: n)
  case 0
  then show ?case by simp
next
  case (Suc k)
  then have "n < 256" and "Suc n + k \<le> 256" by simp_all
  with Suc.IH [of "Suc n"] fill_step [of n] show ?case
    by (simp add: execs_append)
qed

lemma reach_fill: "execs parse0 validate0 trace_full (init_state users0) = Inr (fill_state 256)"
proof -
  have "execs parse0 validate0 (concat (replicate 255 fill_round)) (fill_state (Suc 0)) =
          Inr (fill_state (Suc 0 + 255))"
    by (rule fill_many) simp
  then have "execs parse0 validate0 (concat (replicate 255 fill_round)) (fill_state (Suc 0)) =
          Inr (fill_state 256)"
    by simp
  then show ?thesis
    by (simp only: trace_full_def execs_append run_ab fill_first sum.case)
qed

lemma st_full_fill: "st_full = fill_state 256"
  by (simp add: st_full_def fill_state_def)

lemma reach_full: "execs parse0 validate0 trace_full (init_state users0) = Inr st_full"
  by (simp only: st_full_fill reach_fill)

lemma run_panic: "execs parse0 validate0 trace_panic (init_state users0) = Inl CloseOfClosedChannel"
proof -
  have "execs parse0 validate0 [Frame 0 req_hi env_ok, HubBroadcast msg_hi, Connect 3 ''b'' 40, Disconnect 1 50]
          st_full = Inl CloseOfClosedChannel"
    by (simp add: st_full_def eval_defs fun_upd_twist)
  then show ?thesis
    by (simp only: trace_panic_def execs_append reach_full sum.case)
qed

lemma full_st_full: "full (Send_of st_full 1) \<and> \<not> full (Send_of st_full 0)"
  by (simp add: full_def Send_of_def st_full_def)

lemma run_Broadcast_st_full: "run_Broadcast msg_hi st_full = Inr st_evicted"
  by (simp add: st_full_def st_evicted_def eval_defs fun_upd_twist)

lemma run_relogin: "execs parse0 validate0 trace_relogin (init_state users0) = Inr st_relogin"
proof -
  have "execs parse0 validate0 [Frame 0 req_hi env_ok, HubBroadcast msg_hi, Connect 3 ''b'' 40] st_full =
          Inr st_relogin"
    by (simp add: st_full_def st_relogin_def eval_defs fun_upd_twist numeral_2_eq_2 [symmetric])
  then show ?thesis
    by (simp only: trace_relogin_def execs_append reach_full sum.case)
qed


section \<open>The message pipeline of the read pump\<close>

text \<open>
  Claim C6. A request whose validation returns a non-empty list of errors is dropped: the
  loop body changes nothing (no insert, no write, no log line) and hands no message to the
  hub, and the read loop goes on with the next frame from the same state.
\<close>

theorem invalid_request_dropped:
  assumes "Validate msgReq \<noteq> []"
  shows "readPump_body Validate uid msgReq env s = (s, None) \<and>
         readPump Validate p uid ((msgReq, env) # frames) s = readPump Validate p uid frames s \<and>
         exec jwt_Parse Validate (Frame p msgReq env) s = Inr s"
  using assms by (simp add: readPump_body_def split: option.splits)

theorem invalid_request_dropped_witness:
  "validate0 req_empty \<noteq> [] \<and>
   readPump_body validate0 ''a'' req_empty env_ok (init_state users0) = (init_state users0, None) \<and>
   readPump validate0 0 ''a'' [(req_empty, env_ok), (req_hi, env_ok)] (init_state users0) =
     readPump validate0 0 ''a'' [(req_hi, env_ok)] (init_state users0) \<and>
   snd (readPump validate0 0 ''a'' [(req_empty, env_ok), (req_hi, env_ok)] (init_state users0)) =
     [Broadcast msg_hi, Unregister 0]"
proof -
  have v: "validate0 req_empty \<noteq> []"
    by (simp add: validate0_def req_empty_def)
  have r: "snd (readPump validate0 0 ''a'' [(req_hi, env_ok)] (init_state users0)) =
             [Broadcast msg_hi, Unregister 0]"
    by (simp add: readPump_body_def validate0_def req_hi_def env_ok_def msg_hi_def Let_def)
  from invalid_request_dropped [where Validate = validate0 and msgReq = req_empty and uid = "''a''"
      and env = env_ok and s = "init_state users0" and p = 0 and frames = "[(req_hi, env_ok)]", OF v] v r
  show ?thesis by simp
qed

text \<open>
  Claim C3. When a request has passed validation and the self-address check and the insert
  fails, the only effect is the log line: nothing is stored, the sender's last-seen is not
  written, no queue changes, and nothing is handed to the hub; the loop goes on. Whenever
  the loop body does hand a message to the hub, the insert has succeeded and the message
  is the one just stored.
\<close>

theorem insert_failure_drops_message:
  assumes "Validate msgReq = []" and "reqReceiverID msgReq \<noteq> uid" and "insert_err env = Some err"
  shows "readPump_body Validate uid msgReq env s =
           (s\<lparr>logs := logs s @ [''Failed to save message: '' @ err]\<rparr>, None) \<and>
         readPump Validate p uid ((msgReq, env) # frames) s =
           readPump Validate p uid frames (s\<lparr>logs := logs s @ [''Failed to save message: '' @ err]\<rparr>) \<and>
         (\<forall>r e t t' m. readPump_body Validate uid r e t = (t', Some m) \<longrightarrow>
            insert_err e = None \<and> messages t' = messages t @ [m])"
  using assms by (auto simp add: readPump_body_def Let_def split: option.splits if_splits)

theorem insert_failure_drops_message_witness:
  "validate0 req_hi = [] \<and> reqReceiverID req_hi \<noteq> ''a'' \<and> insert_err env_fail = Some ''write error'' \<and>
   readPump_body validate0 ''a'' req_hi env_fail (init_state users0) =
     ((init_state users0)\<lparr>logs := [''Failed to save message: write error'']\<rparr>, None) \<and>
   readPump_body validate0 ''a'' req_hi env_ok (init_state users0) =
     ((init_state users0)\<lparr>messages := [msg_hi],
         users := users0(''a'' \<mapsto> \<lparr>Online = False, LastSeen = 101\<rparr>)\<rparr>, Some msg_hi) \<and>
   insert_err env_ok = None"
proof -
  have h1: "validate0 req_hi = []" by (simp add: validate0_def req_hi_def)
  have h2: "reqReceiverID req_hi \<noteq> ''a''" by (simp add: req_hi_def)
  have h3: "insert_err env_fail = Some ''write error''" by (simp add: env_fail_def)
  have ok: "readPump_body validate0 ''a'' req_hi env_ok (init_state users0) =
     ((init_state users0)\<lparr>messages := [msg_hi],
         users := users0(''a'' \<mapsto> \<lparr>Online = False, LastSeen = 101\<rparr>)\<rparr>, Some msg_hi)"
    by (simp add: readPump_body_def validate0_def req_hi_def env_ok_def msg_hi_def init_state_def
        UpdateOne_def users0_def Let_def)
  from insert_failure_drops_message [where Validate = validate0 and msgReq = req_hi and uid = "''a''"
      and env = env_fail and err = "''write error''" and s = "init_state users0" and p = 0 and frames = "[]",
      OF h1 h2 h3]
  have "readPump_body validate0 ''a'' req_hi env_fail (init_state users0) =
     ((init_state users0)\<lparr>logs := [''Failed to save message: write error'']\<rparr>, None) \<and>
     (readPump_body validate0 ''a'' req_hi env_ok (init_state users0) =
        ((init_state users0)\<lparr>messages := [msg_hi],
         users := users0(''a'' \<mapsto> \<lparr>Online = False, LastSeen = 101\<rparr>)\<rparr>, Some msg_hi) \<longrightarrow>
      insert_err env_ok = None)"
    by (simp add: init_state_def)
  with h1 h2 h3 ok show ?thesis by simp
qed

text \<open>
  Claim C4, as amended. A valid request of the user \<open>uid\<close> to another user, whose insert
  succeeds, yields one message with the generated id, the sender \<open>uid\<close>, the request's
  receiver, content and type, \<open>Read = False\<close> and the server's clock reading; the loop body
  stores exactly this message and hands it to the hub. When the hub then takes it in a
  state the controller has reached, where sender and receiver are registered and both
  queues have room, the same message is appended to the receiver's queue and to the
  sender's queue.
\<close>

theorem valid_request_persisted_then_delivered:
  assumes "Validate msgReq = []" and "reqReceiverID msgReq \<noteq> uid" and "insert_err env = None"
    and "message = \<lparr>ID = new_id env, SenderID = uid, ReceiverID = reqReceiverID msgReq,
                     Content = reqContent msgReq, Type = reqType msgReq, Read = False,
                     CreatedAt = created_now env\<rparr>"
  shows "readPump_body Validate uid msgReq env s =
           (s\<lparr>messages := messages s @ [message],
               users := UpdateOne uid (\<lambda>u. u\<lparr>LastSeen := seen_now env\<rparr>) (users s)\<rparr>, Some message) \<and>
         (\<forall>jwt_Parse as us h pa pb.
            execs jwt_Parse Validate as (init_state us) = Inr h \<and>
            Clients h uid = Some pa \<and> Clients h (reqReceiverID msgReq) = Some pb \<and>
            \<not> full (Send_of h pa) \<and> \<not> full (Send_of h pb) \<longrightarrow>
            (\<exists>h'. run_Broadcast message h = Inr h' \<and>
                  Clients h' uid = Some pa \<and> Clients h' (reqReceiverID msgReq) = Some pb \<and>
                  Send_of h' pb = (Send_of h pb)\<lparr>buf := buf (Send_of h pb) @ [message]\<rparr> \<and>
                  Send_of h' pa = (Send_of h pa)\<lparr>buf := buf (Send_of h pa) @ [message]\<rparr>))"
proof (intro conjI allI impI)
  show "readPump_body Validate uid msgReq env s =
           (s\<lparr>messages := messages s @ [message],
               users := UpdateOne uid (\<lambda>u. u\<lparr>LastSeen := seen_now env\<rparr>) (users s)\<rparr>, Some message)"
    using assms by (simp add: readPump_body_def Let_def)
next
  fix jwt_Parse as us h pa pb
  assume a: "execs jwt_Parse Validate as (init_state us) = Inr h \<and>
            Clients h uid = Some pa \<and> Clients h (reqReceiverID msgReq) = Some pb \<and>
            \<not> full (Send_of h pa) \<and> \<not> full (Send_of h pb)"
  have sr: "SenderID message = uid" "ReceiverID message = reqReceiverID msgReq"
    by (simp_all add: assms(4))
  from a have inv: "hub_inv h" by (auto intro: hub_inv_reachable)
  from run_Broadcast_effect [OF inv, of message] obtain h' where
    r: "run_Broadcast message h = Inr h'"
    and d: "SenderID message \<noteq> ReceiverID message \<longrightarrow>
              (\<forall>p. Clients h (SenderID message) = Some p \<and> \<not> full (Send_of h p) \<longrightarrow>
                 Clients h' (SenderID message) = Some p \<and>
                 Send_of h' p = (Send_of h p)\<lparr>buf := buf (Send_of h p) @ [message]\<rparr>) \<and>
              (\<forall>p. Clients h (ReceiverID message) = Some p \<and> \<not> full (Send_of h p) \<longrightarrow>
                 Clients h' (ReceiverID message) = Some p \<and>
                 Send_of h' p = (Send_of h p)\<lparr>buf := buf (Send_of h p) @ [message]\<rparr>)"
    by (elim exE conjE) (rule that)
  from assms(2) sr have ne: "SenderID message \<noteq> ReceiverID message" by simp
  from d ne sr have
    ds: "\<forall>p. Clients h uid = Some p \<and> \<not> full (Send_of h p) \<longrightarrow>
                 Clients h' uid = Some p \<and>
                 Send_of h' p = (Send_of h p)\<lparr>buf := buf (Send_of h p) @ [message]\<rparr>"
    and dr: "\<forall>p. Clients h (reqReceiverID msgReq) = Some p \<and> \<not> full (Send_of h p) \<longrightarrow>
                 Clients h' (reqReceiverID msgReq) = Some p \<and>
                 Send_of h' p = (Send_of h p)\<lparr>buf := buf (Send_of h p) @ [message]\<rparr>"
    by simp_all
  from ds [rule_format, of pa] dr [rule_format, of pb] a r
  show "\<exists>h'. run_Broadcast message h = Inr h' \<and>
                  Clients h' uid = Some pa \<and> Clients h' (reqReceiverID msgReq) = Some pb \<and>
                  Send_of h' pb = (Send_of h pb)\<lparr>buf := buf (Send_of h pb) @ [message]\<rparr> \<and>
                  Send_of h' pa = (Send_of h pa)\<lparr>buf := buf (Send_of h pa) @ [message]\<rparr>"
    by simp
qed

theorem valid_request_persisted_then_delivered_witness:
  "validate0 req_hi = [] \<and> reqReceiverID req_hi \<noteq> ''a'' \<and> insert_err env_ok = None \<and>
   execs parse0 validate0 [Connect 1 ''a'' 10, Connect 2 ''b'' 20] (init_state users0) = Inr st_ab \<and>
   Clients st_ab ''a'' = Some 0 \<and> Clients st_ab ''b'' = Some 1 \<and>
   \<not> full (Send_of st_ab 0) \<and> \<not> full (Send_of st_ab 1) \<and>
   snd (readPump_body validate0 ''a'' req_hi env_ok st_ab) = Some msg_hi \<and>
   messages (fst (readPump_body validate0 ''a'' req_hi env_ok st_ab)) = [msg_hi] \<and>
   \<not> isl (run_Broadcast msg_hi st_ab) \<and>
   buf (Send_of (projr (run_Broadcast msg_hi st_ab)) 1) = [msg_hi] \<and>
   buf (Send_of (projr (run_Broadcast msg_hi st_ab)) 0) = [msg_hi]"
proof -
  have h1: "validate0 req_hi = []" by (simp add: validate0_def req_hi_def)
  have h2: "reqReceiverID req_hi \<noteq> ''a''" by (simp add: req_hi_def)
  have h3: "insert_err env_ok = None" by (simp add: env_ok_def)
  have h4: "msg_hi = \<lparr>ID = new_id env_ok, SenderID = ''a'', ReceiverID = reqReceiverID req_hi,
                     Content = reqContent req_hi, Type = reqType req_hi, Read = False,
                     CreatedAt = created_now env_ok\<rparr>"
    by (simp add: msg_hi_def env_ok_def req_hi_def)
  have a: "Clients st_ab ''a'' = Some 0" and b: "Clients st_ab ''b'' = Some 1"
    by (simp_all add: st_ab_def)
  have qa: "\<not> full (Send_of st_ab 0)" and qb: "\<not> full (Send_of st_ab 1)"
    by (simp_all add: st_ab_def full_def Send_of_def)
  have ea: "buf (Send_of st_ab 0) = []" and eb: "buf (Send_of st_ab 1) = []"
    by (simp_all add: st_ab_def Send_of_def)
  have rb: "reqReceiverID req_hi = ''b''" by (simp add: req_hi_def)
  note T = valid_request_persisted_then_delivered [where Validate = validate0 and msgReq = req_hi
      and uid = "''a''" and env = env_ok and message = msg_hi and s = st_ab, OF h1 h2 h3 h4]
  from T have 1: "readPump_body validate0 ''a'' req_hi env_ok st_ab =
           (st_ab\<lparr>messages := messages st_ab @ [msg_hi],
               users := UpdateOne ''a'' (\<lambda>u. u\<lparr>LastSeen := seen_now env_ok\<rparr>) (users st_ab)\<rparr>, Some msg_hi)"
    by simp
  from T [THEN conjunct2, rule_format, of parse0 "[Connect 1 ''a'' 10, Connect 2 ''b'' 20]" users0 st_ab 0 1]
    run_ab a b qa qb rb ea eb
  have 2: "\<not> isl (run_Broadcast msg_hi st_ab) \<and>
     buf (Send_of (projr (run_Broadcast msg_hi st_ab)) 1) = [msg_hi] \<and>
     buf (Send_of (projr (run_Broadcast msg_hi st_ab)) 0) = [msg_hi]"
    by auto
  have m: "messages st_ab = []" by (simp add: st_ab_def)
  from h1 h2 h3 run_ab a b qa qb 1 2 m show ?thesis by simp
qed

text \<open>
  The claim C4 without these conditions fails: with \<open>a\<close> and \<open>b\<close> registered, a valid request
  of \<open>a\<close> to \<open>b\<close> whose insert fails stores nothing and hands nothing to the hub; and a
  message dispatched while the queue of \<open>b\<close> is full is not put on that queue, \<open>b\<close> is
  removed instead.
\<close>

theorem valid_request_delivery_counterexample:
  "validate0 req_hi = [] \<and> reqReceiverID req_hi \<noteq> ''a'' \<and>
   Clients st_ab ''a'' = Some 0 \<and> Clients st_ab ''b'' = Some 1 \<and>
   readPump_body validate0 ''a'' req_hi env_fail st_ab =
     (st_ab\<lparr>logs := logs st_ab @ [''Failed to save message: write error'']\<rparr>, None) \<and>
   messages (fst (readPump_body validate0 ''a'' req_hi env_fail st_ab)) = [] \<and>
   Clients st_full ''a'' = Some 0 \<and> Clients st_full ''b'' = Some 1 \<and>
   run_Broadcast msg_hi st_full = Inr st_evicted \<and>
   msg_hi \<notin> set (buf (Send_of st_evicted 1)) \<and> Clients st_evicted ''b'' = None"
  by (simp add: st_ab_def st_full_def st_evicted_def Send_of_def eval_defs fun_upd_twist)

text \<open>
  Claim C5. In every state the controller reaches from process start, no stored message,
  no message on its way to the hub and no queued message has its sender as receiver; and in
  such a state a request addressed to the sending connection's own user is rejected with
  the state left as it was and nothing handed to the hub.
\<close>

theorem self_addressed_never_persisted_or_dispatched:
  assumes "execs jwt_Parse Validate as (init_state us) = Inr s"
  shows "(\<forall>m \<in> set (messages s). SenderID m \<noteq> ReceiverID m) \<and>
         (\<forall>m \<in> set (inflight s). SenderID m \<noteq> ReceiverID m) \<and>
         (\<forall>c \<in> set (heap s). \<forall>m \<in> set (buf (Send c)). SenderID m \<noteq> ReceiverID m) \<and>
         (\<forall>uid msgReq env. reqReceiverID msgReq = uid \<longrightarrow>
            readPump_body Validate uid msgReq env s = (s, None))"
proof -
  from no_self_execs [OF no_self_init assms] have "no_self_state s" .
  then show ?thesis
    by (simp add: no_self_state_def self_addressed_def readPump_body_def)
qed

theorem self_addressed_never_persisted_or_dispatched_witness:
  "execs parse0 validate0 trace_hi (init_state users0) = Inr st_hi \<and>
   messages st_hi = [msg_hi] \<and>
   SenderID msg_hi \<noteq> ReceiverID msg_hi \<and>
   buf (Send_of st_hi 1) = [msg_hi] \<and>
   reqReceiverID req_self = ''a'' \<and>
   readPump_body validate0 ''a'' req_self env_ok st_hi = (st_hi, None)"
proof -
  have m: "messages st_hi = [msg_hi]" and q: "buf (Send_of st_hi 1) = [msg_hi]"
    by (simp_all add: st_hi_def Send_of_def)
  have r: "reqReceiverID req_self = ''a''" by (simp add: req_self_def)
  note inv = self_addressed_never_persisted_or_dispatched [OF run_hi]
  from inv have "\<forall>uid msgReq env. reqReceiverID msgReq = uid \<longrightarrow>
            readPump_body validate0 uid msgReq env st_hi = (st_hi, None)"
    by (elim conjE)
  from this [rule_format, of req_self "''a''" env_ok] r
  have d: "readPump_body validate0 ''a'' req_self env_ok st_hi = (st_hi, None)" by simp
  from inv run_hi m q r d show ?thesis by simp
qed

section \<open>The hub\<close>

text \<open>
  An \<open>Unregister\<close> turn that has returned, repeated at once for the same client, changes
  nothing.
\<close>

lemma run_Unregister_twice:
  assumes "run_Unregister now p s = Inr s'"
  shows "run_Unregister now' p s' = Inr s'"
proof (cases "deref s p")
  case None
  with assms show ?thesis by (simp add: run_Unregister_def)
next
  case (Some client)
  then have p: "p < length (heap s)" by (auto simp: deref_def split: if_splits)
  from run_Unregister_Inr [OF Some assms] show ?thesis
  proof
    assume "Clients s (UserID client) = None \<and> s' = s"
    with Some show ?thesis by (simp add: run_Unregister_def)
  next
    assume "Clients s (UserID client) \<noteq> None \<and> \<not> closed (Send client) \<and>
          s' = s\<lparr>Clients := (Clients s)(UserID client := None),
                 heap := (heap s)[p := client\<lparr>Send := (Send client)\<lparr>closed := True\<rparr>\<rparr>],
                 users := UpdateOne (UserID client) (\<lambda>u. u\<lparr>Online := False, LastSeen := now\<rparr>) (users s),
                 logs := logs s @ [''User '' @ UserID client @ '' disconnected'']\<rparr>"
    with p show ?thesis by (simp add: run_Unregister_def deref_def)
  qed
qed

text \<open>
  Claim C2. In every state the controller reaches, the broadcast turn for any message
  returns without a panic. A target (receiver or sender) whose registered client's queue is
  full is removed from the registry and its queue is closed. For a message between two
  different users, a party whose queue has room stays registered and gets the message
  appended, whatever the state of the other party's queue.
\<close>

theorem dispatch_full_queue_evicts_without_blocking_other:
  assumes "execs jwt_Parse Validate as (init_state us) = Inr s"
  shows "\<exists>s'. run_Broadcast m s = Inr s' \<and>
           (\<forall>p. Clients s (ReceiverID m) = Some p \<and> full (Send_of s p) \<longrightarrow>
              Clients s' (ReceiverID m) = None \<and> closed (Send_of s' p)) \<and>
           (\<forall>p. Clients s (SenderID m) = Some p \<and> full (Send_of s p) \<longrightarrow>
              Clients s' (SenderID m) = None \<and> closed (Send_of s' p)) \<and>
           (SenderID m \<noteq> ReceiverID m \<longrightarrow>
              (\<forall>p. Clients s (SenderID m) = Some p \<and> \<not> full (Send_of s p) \<longrightarrow>
                 Clients s' (SenderID m) = Some p \<and>
                 Send_of s' p = (Send_of s p)\<lparr>buf := buf (Send_of s p) @ [m]\<rparr>) \<and>
              (\<forall>p. Clients s (ReceiverID m) = Some p \<and> \<not> full (Send_of s p) \<longrightarrow>
                 Clients s' (ReceiverID m) = Some p \<and>
                 Send_of s' p = (Send_of s p)\<lparr>buf := buf (Send_of s p) @ [m]\<rparr>))"
proof -
  have "hub_inv s" using hub_inv_reachable [OF assms] .
  from run_Broadcast_effect [OF this, of m] obtain s' where
    "run_Broadcast m s = Inr s'"
    "\<forall>p. Clients s (ReceiverID m) = Some p \<and> full (Send_of s p) \<longrightarrow>
              Clients s' (ReceiverID m) = None \<and> closed (Send_of s' p)"
    "\<forall>p. Clients s (SenderID m) = Some p \<and> full (Send_of s p) \<longrightarrow>
              Clients s' (SenderID m) = None \<and> closed (Send_of s' p)"
    "SenderID m \<noteq> ReceiverID m \<longrightarrow>
              (\<forall>p. Clients s (SenderID m) = Some p \<and> \<not> full (Send_of s p) \<longrightarrow>
                 Clients s' (SenderID m) = Some p \<and>
                 Send_of s' p = (Send_of s p)\<lparr>buf := buf (Send_of s p) @ [m]\<rparr>) \<and>
              (\<forall>p. Clients s (ReceiverID m) = Some p \<and> \<not> full (Send_of s p) \<longrightarrow>
                 Clients s' (ReceiverID m) = Some p \<and>
                 Send_of s' p = (Send_of s p)\<lparr>buf := buf (Send_of s p) @ [m]\<rparr>)"
    by (elim exE conjE) (rule that)
  then show ?thesis by (intro exI [of _ s'] conjI)
qed

theorem dispatch_full_queue_evicts_without_blocking_other_witness:
  "execs parse0 validate0 trace_full (init_state users0) = Inr st_full \<and>
   SenderID msg_hi \<noteq> ReceiverID msg_hi \<and> SenderID msg_back \<noteq> ReceiverID msg_back \<and>
   Clients st_full ''a'' = Some 0 \<and> \<not> full (Send_of st_full 0) \<and>
   Clients st_full ''b'' = Some 1 \<and> full (Send_of st_full 1) \<and>
   run_Broadcast msg_hi st_full = Inr st_evicted \<and>
   Clients st_evicted ''b'' = None \<and> closed (Send_of st_evicted 1) \<and>
   Clients st_evicted ''a'' = Some 0 \<and> buf (Send_of st_evicted 0) = [msg_hi] \<and>
   run_Broadcast msg_back st_full = Inr st_evicted_back \<and>
   Clients st_evicted_back ''b'' = None \<and> closed (Send_of st_evicted_back 1) \<and>
   Clients st_evicted_back ''a'' = Some 0 \<and> buf (Send_of st_evicted_back 0) = [msg_back]"
proof -
  have a: "Clients st_full ''a'' = Some 0" and b: "Clients st_full ''b'' = Some 1"
    by (simp_all add: st_full_def)
  have ea: "buf (Send_of st_full 0) = []" by (simp add: Send_of_def st_full_def)
  have r2: "run_Broadcast msg_back st_full = Inr st_evicted_back"
    by (simp add: st_full_def st_evicted_back_def msg_back_def eval_defs fun_upd_twist)
  have f1: "SenderID msg_hi = ''a'' \<and> ReceiverID msg_hi = ''b''" by (simp add: msg_hi_def)
  have f2: "SenderID msg_back = ''b'' \<and> ReceiverID msg_back = ''a''" by (simp add: msg_back_def)
  from dispatch_full_queue_evicts_without_blocking_other [OF reach_full, of msg_hi]
    run_Broadcast_st_full f1 a b full_st_full ea
  have 1: "Clients st_evicted ''b'' = None \<and> closed (Send_of st_evicted 1) \<and>
      Clients st_evicted ''a'' = Some 0 \<and> buf (Send_of st_evicted 0) = [msg_hi]"
    by simp
  from dispatch_full_queue_evicts_without_blocking_other [OF reach_full, of msg_back]
    r2 f2 a b full_st_full ea
  have 2: "Clients st_evicted_back ''b'' = None \<and> closed (Send_of st_evicted_back 1) \<and>
      Clients st_evicted_back ''a'' = Some 0 \<and> buf (Send_of st_evicted_back 0) = [msg_back]"
    by simp
  from reach_full f1 f2 a b full_st_full run_Broadcast_st_full r2 1 2
  show ?thesis by simp
qed

text \<open>
  Claim C1, evaluated on the code. Two handshakes of the user \<open>a\<close> leave the registry
  pointing to the second client. The \<open>Unregister\<close> of the first, stale client then finds the
  key of \<open>a\<close> present, deletes the entry of the second client, closes the first client's
  queue and writes \<open>online = false\<close>: the entry of the newer session and the stored presence
  are not left untouched (the newer client's queue is). When the stale client's queue is
  closed already, as after an eviction, the same turn panics: in the run from process start
  in which the queue of \<open>b\<close> fills, \<open>b\<close> is evicted and connects again, the one
  \<open>Unregister\<close> of the evicted client ends the process.
\<close>

theorem stale_unregister_removes_newer_session:
  "execs parse0 validate0 [Connect 1 ''a'' 10, Connect 2 ''a'' 20] (init_state users0) = Inr st_two \<and>
   Clients st_two ''a'' = Some 1 \<and> UserID (heap st_two ! 0) = ''a'' \<and>
   users st_two ''a'' = Some \<lparr>Online = True, LastSeen = 20\<rparr> \<and>
   run [(30, Unregister 0)] st_two = Inr st_stale \<and>
   exec parse0 validate0 (Disconnect 0 30) st_two = Inr st_stale \<and>
   Clients st_stale ''a'' = None \<and>
   users st_stale ''a'' = Some \<lparr>Online = False, LastSeen = 30\<rparr> \<and>
   closed (Send_of st_stale 0) \<and> \<not> closed (Send_of st_stale 1) \<and>
   execs parse0 validate0 [Connect 3 ''b'' 40, Disconnect 1 50] st_evicted = Inl CloseOfClosedChannel \<and>
   execs parse0 validate0 trace_panic (init_state users0) = Inl CloseOfClosedChannel"
  using run_panic
  by (simp add: st_two_def st_stale_def st_evicted_def Send_of_def eval_defs fun_upd_twist)




text \<open>
  The presence writes of the turns that return. The \<open>Register\<close> turn writes \<open>online = true\<close>
  and \<open>last_seen = now\<close> into the document of the client's user. An \<open>Unregister\<close> turn that
  returns with a registry entry removed has removed the entry of the client's user and
  written \<open>online = false\<close> and \<open>last_seen = now\<close> into that user's document; the turn does
  so whenever it finds the user's key and the client's queue is still open. A turn of the
  read loop that hands a message to the hub writes the sender's \<open>last_seen\<close> only: no other
  document changes and no \<open>online\<close> flag changes. A user without a document gets none.
\<close>

theorem presence_transitions:
  "(\<forall>client. deref s p = Some client \<longrightarrow>
      (\<exists>s'. run_Register now p s = Inr s' \<and>
            users s' (UserID client) =
              map_option (\<lambda>u. u\<lparr>Online := True, LastSeen := now\<rparr>) (users s (UserID client)) \<and>
            (\<forall>k. k \<noteq> UserID client \<longrightarrow> users s' k = users s k))) \<and>
   (\<forall>client s'. deref s p = Some client \<and> run_Unregister now p s = Inr s' \<and> Clients s' \<noteq> Clients s \<longrightarrow>
      Clients s (UserID client) \<noteq> None \<and> Clients s' = (Clients s)(UserID client := None) \<and>
      users s' (UserID client) =
        map_option (\<lambda>u. u\<lparr>Online := False, LastSeen := now\<rparr>) (users s (UserID client)) \<and>
      (\<forall>k. k \<noteq> UserID client \<longrightarrow> users s' k = users s k)) \<and>
   (\<forall>client. deref s p = Some client \<and> Clients s (UserID client) \<noteq> None \<and> \<not> closed (Send client) \<longrightarrow>
      (\<exists>s'. run_Unregister now p s = Inr s' \<and>
            Clients s' (UserID client) = None \<and>
            users s' (UserID client) =
              map_option (\<lambda>u. u\<lparr>Online := False, LastSeen := now\<rparr>) (users s (UserID client)) \<and>
            (\<forall>k. k \<noteq> UserID client \<longrightarrow> users s' k = users s k))) \<and>
   (\<forall>s' message. readPump_body Validate uid msgReq env s = (s', Some message) \<longrightarrow>
      users s' uid = map_option (\<lambda>u. u\<lparr>LastSeen := seen_now env\<rparr>) (users s uid) \<and>
      (\<forall>k. k \<noteq> uid \<longrightarrow> users s' k = users s k) \<and>
      (\<forall>k. map_option Online (users s' k) = map_option Online (users s k)))"
proof (intro conjI allI impI)
  fix client assume "deref s p = Some client"
  then show "\<exists>s'. run_Register now p s = Inr s' \<and>
            users s' (UserID client) =
              map_option (\<lambda>u. u\<lparr>Online := True, LastSeen := now\<rparr>) (users s (UserID client)) \<and>
            (\<forall>k. k \<noteq> UserID client \<longrightarrow> users s' k = users s k)"
    by (simp add: run_Register_def UpdateOne_same UpdateOne_other)
next
  fix client s'
  assume a: "deref s p = Some client \<and> run_Unregister now p s = Inr s' \<and> Clients s' \<noteq> Clients s"
  then have d: "deref s p = Some client" and r: "run_Unregister now p s = Inr s'"
    and ne: "Clients s' \<noteq> Clients s" by simp_all
  from run_Unregister_Inr [OF d r] ne
  have k: "Clients s (UserID client) \<noteq> None"
    and s': "s' = s\<lparr>Clients := (Clients s)(UserID client := None),
                           heap := (heap s)[p := client\<lparr>Send := (Send client)\<lparr>closed := True\<rparr>\<rparr>],
                           users := UpdateOne (UserID client) (\<lambda>u. u\<lparr>Online := False, LastSeen := now\<rparr>) (users s),
                           logs := logs s @ [''User '' @ UserID client @ '' disconnected'']\<rparr>"
    by blast+
  show "Clients s (UserID client) \<noteq> None" by (rule k)
  show "Clients s' = (Clients s)(UserID client := None)" by (simp add: s')
  show "users s' (UserID client) =
        map_option (\<lambda>u. u\<lparr>Online := False, LastSeen := now\<rparr>) (users s (UserID client))"
    by (simp add: s' UpdateOne_same)
  show "\<And>k. k \<noteq> UserID client \<Longrightarrow> users s' k = users s k"
    by (simp add: s' UpdateOne_other)
next
  fix client
  assume "deref s p = Some client \<and> Clients s (UserID client) \<noteq> None \<and> \<not> closed (Send client)"
  then show "\<exists>s'. run_Unregister now p s = Inr s' \<and>
            Clients s' (UserID client) = None \<and>
            users s' (UserID client) =
              map_option (\<lambda>u. u\<lparr>Online := False, LastSeen := now\<rparr>) (users s (UserID client)) \<and>
            (\<forall>k. k \<noteq> UserID client \<longrightarrow> users s' k = users s k)"
    by (auto simp: run_Unregister_def UpdateOne_same UpdateOne_other)
next
  fix s' message
  assume b: "readPump_body Validate uid msgReq env s = (s', Some message)"
  then have u: "users s' = UpdateOne uid (\<lambda>u. u\<lparr>LastSeen := seen_now env\<rparr>) (users s)"
    by (auto simp: readPump_body_def Let_def split: if_splits option.splits)
  show "users s' uid = map_option (\<lambda>u. u\<lparr>LastSeen := seen_now env\<rparr>) (users s uid)"
    by (simp add: u UpdateOne_same)
  show "\<And>k. k \<noteq> uid \<Longrightarrow> users s' k = users s k"
    by (simp add: u UpdateOne_other)
  show "\<And>k. map_option Online (users s' k) = map_option Online (users s k)"
    by (rule readPump_body_Online [OF b])
qed

theorem presence_transitions_witness:
  "deref st_two 1 = Some (heap st_two ! 1) \<and> UserID (heap st_two ! 1) = ''a'' \<and>
   Clients st_two ''a'' \<noteq> None \<and> \<not> closed (Send (heap st_two ! 1)) \<and>
   users st_two ''a'' = Some \<lparr>Online = True, LastSeen = 20\<rparr> \<and>
   users (projr (run_Register 70 1 st_two)) ''a'' = Some \<lparr>Online = True, LastSeen = 70\<rparr> \<and>
   users (projr (run_Unregister 80 1 st_two)) ''a'' = Some \<lparr>Online = False, LastSeen = 80\<rparr> \<and>
   Clients (projr (run_Unregister 80 1 st_two)) ''a'' = None \<and>
   snd (readPump_body validate0 ''a'' req_hi env_ok st_two) = Some msg_hi \<and>
   users (fst (readPump_body validate0 ''a'' req_hi env_ok st_two)) ''a'' =
     Some \<lparr>Online = True, LastSeen = 101\<rparr>"
proof -
  have d: "deref st_two 1 = Some (heap st_two ! 1)" by (simp add: deref_def st_two_def)
  have u: "UserID (heap st_two ! 1) = ''a''" by (simp add: st_two_def)
  have c: "Clients st_two ''a'' \<noteq> None" by (simp add: st_two_def)
  have o: "\<not> closed (Send (heap st_two ! 1))" by (simp add: st_two_def)
  have p: "users st_two ''a'' = Some \<lparr>Online = True, LastSeen = 20\<rparr>" by (simp add: st_two_def)
  obtain t where b: "readPump_body validate0 ''a'' req_hi env_ok st_two = (t, Some msg_hi)"
    by (simp add: eval_defs)
  note T = presence_transitions [where s = st_two and p = 1 and Validate = validate0 and uid = "''a''"
      and msgReq = req_hi and env = env_ok]
  from T [where now = 70, THEN conjunct1, rule_format, OF d] u p
  have 1: "users (projr (run_Register 70 1 st_two)) ''a'' = Some \<lparr>Online = True, LastSeen = 70\<rparr>"
    by auto
  from T [where now = 80, THEN conjunct2, THEN conjunct2, THEN conjunct1, rule_format,
      of "heap st_two ! 1"] d u c o
  obtain s' where r: "run_Unregister 80 1 st_two = Inr s'" and g: "Clients s' ''a'' = None"
    by auto
  from g c have "Clients s' \<noteq> Clients st_two" by auto
  with T [where now = 80, THEN conjunct2, THEN conjunct1, rule_format, of "heap st_two ! 1" s'] d r u p
  have "users s' ''a'' = Some \<lparr>Online = False, LastSeen = 80\<rparr>" by simp
  with r g
  have 2: "users (projr (run_Unregister 80 1 st_two)) ''a'' = Some \<lparr>Online = False, LastSeen = 80\<rparr> \<and>
           Clients (projr (run_Unregister 80 1 st_two)) ''a'' = None"
    by simp
  from T [where now = 0, THEN conjunct2, THEN conjunct2, THEN conjunct2, rule_format, OF b] p
  have 3: "users t ''a'' = Some \<lparr>Online = True, LastSeen = 101\<rparr>"
    by (simp add: env_ok_def)
  from d u c o p 1 2 3 b show ?thesis by simp
qed

text \<open>
  Claim C8, evaluated on the code. In the run from process start in which the queue of \<open>b\<close>
  fills, the client 1 of \<open>b\<close> is evicted and \<open>b\<close> connects again as the client 2, the registry
  holds an entry for \<open>b\<close> and \<open>b\<close> is stored as online. The one \<open>Unregister\<close> of the evicted
  client finds that entry, and the turn panics in \<open>close(client.Send)\<close>, which the source
  runs after \<open>delete(h.Clients, client.UserID)\<close> and before the presence write: the entry is
  removed and \<open>online = false\<close> is never written.
\<close>

theorem unregister_removes_entry_without_presence_write:
  "execs parse0 validate0 trace_relogin (init_state users0) = Inr st_relogin \<and>
   UserID (heap st_relogin ! 1) = ''b'' \<and> closed (Send_of st_relogin 1) \<and>
   Clients st_relogin ''b'' = Some 2 \<and>
   users st_relogin ''b'' = Some \<lparr>Online = True, LastSeen = 40\<rparr> \<and>
   run [(50, Unregister 1)] st_relogin = Inl CloseOfClosedChannel \<and>
   exec parse0 validate0 (Disconnect 1 50) st_relogin = Inl CloseOfClosedChannel"
  using run_relogin
  by (simp add: st_relogin_def Send_of_def run_Unregister_def deref_def)

text \<open>
  Claim C10. In a state the controller has reached, the document of a registered user says
  \<open>online = true\<close>. When a broadcast turn there finds the queue of a registered target full,
  it removes the entry and closes the queue and writes nothing to the collection \<open>users\<close>.
  The \<open>Unregister\<close> of that client right after is skipped; at any later time it is skipped
  or panics on the closed queue, so it never writes the presence. As long as no handshake
  registers the user again, the user stays out of the registry and stays stored as online.
\<close>

theorem overflow_evicted_user_left_online:
  assumes "execs jwt_Parse Validate as (init_state us) = Inr s"
    and "Clients s uid = Some p" and "full (Send_of s p)"
    and "uid = ReceiverID m \<or> uid = SenderID m"
  shows "(\<forall>u. users s uid = Some u \<longrightarrow> Online u) \<and>
         (\<exists>s'. run_Broadcast m s = Inr s' \<and> Clients s' uid = None \<and> closed (Send_of s' p) \<and>
           users s' = users s \<and>
           (\<forall>now. run_Unregister now p s' = Inr s') \<and>
           (\<forall>bs t now. execs jwt_Parse Validate bs s' = Inr t \<longrightarrow>
              run_Unregister now p t = Inr t \<or> run_Unregister now p t = Inl CloseOfClosedChannel) \<and>
           (\<forall>bs t.
              (\<forall>a \<in> set bs. \<not> connects jwt_Parse uid a) \<and> execs jwt_Parse Validate bs s' = Inr t \<longrightarrow>
              Clients t uid = None \<and> (\<forall>u. users t uid = Some u \<longrightarrow> Online u)))"
proof -
  have inv: "hub_inv s" using hub_inv_reachable [OF assms(1)] .
  have on: "\<forall>u. users s uid = Some u \<longrightarrow> Online u"
    using online_invD [OF online_inv_reachable [OF assms(1)], of uid] assms(2) by simp
  from run_Broadcast_ok [OF inv] obtain s' where r: "run_Broadcast m s = Inr s'" ..
  from run_Broadcast_evicts [OF inv r assms(2,3,4)]
  have gone: "Clients s' uid = None" and cl: "closed (Send_of s' p)" by simp_all
  from run_Broadcast_frame [OF r] have us: "users s' = users s"
    and len: "length (heap s') = length (heap s)" by simp_all
  from hub_invD [OF inv assms(2)] have p: "p < length (heap s)" and u: "UserID (heap s ! p) = uid"
    by simp_all
  from p len have p': "p < length (heap s')" by simp
  from run_Broadcast_UserID [OF r, of p] u have u': "UserID (heap s' ! p) = uid" by simp
  have unreg: "\<forall>now. run_Unregister now p s' = Inr s'"
    using p' u' gone by (simp add: run_Unregister_def deref_def)
  have never: "\<forall>bs t now. execs jwt_Parse Validate bs s' = Inr t \<longrightarrow>
              run_Unregister now p t = Inr t \<or> run_Unregister now p t = Inl CloseOfClosedChannel"
  proof (intro allI impI)
    fix bs t now
    assume "execs jwt_Parse Validate bs s' = Inr t"
    from closed_execs [OF p' cl this] have "p < length (heap t)" "closed (Send_of t p)" by simp_all
    from run_Unregister_closed [OF this]
    show "run_Unregister now p t = Inr t \<or> run_Unregister now p t = Inl CloseOfClosedChannel" .
  qed
  have later: "\<forall>bs t.
              (\<forall>a \<in> set bs. \<not> connects jwt_Parse uid a) \<and> execs jwt_Parse Validate bs s' = Inr t \<longrightarrow>
              Clients t uid = None \<and> (\<forall>u. users t uid = Some u \<longrightarrow> Online u)"
  proof (intro allI impI)
    fix bs t
    assume a: "(\<forall>a \<in> set bs. \<not> connects jwt_Parse uid a) \<and> execs jwt_Parse Validate bs s' = Inr t"
    from frozen_execs [OF gone, of bs jwt_Parse Validate t] a us
    have g: "Clients t uid = None"
      and o: "map_option Online (users t uid) = map_option Online (users s uid)" by simp_all
    have "\<forall>u. users t uid = Some u \<longrightarrow> Online u"
    proof (intro allI impI)
      fix v assume v: "users t uid = Some v"
      with o obtain w where "users s uid = Some w" and "Online w = Online v"
        by (cases "users s uid") auto
      with on show "Online v" by simp
    qed
    with g show "Clients t uid = None \<and> (\<forall>u. users t uid = Some u \<longrightarrow> Online u)" by simp
  qed
  from r gone cl us unreg never later
  have "\<exists>s'. run_Broadcast m s = Inr s' \<and> Clients s' uid = None \<and> closed (Send_of s' p) \<and>
           users s' = users s \<and>
           (\<forall>now. run_Unregister now p s' = Inr s') \<and>
           (\<forall>bs t now. execs jwt_Parse Validate bs s' = Inr t \<longrightarrow>
              run_Unregister now p t = Inr t \<or> run_Unregister now p t = Inl CloseOfClosedChannel) \<and>
           (\<forall>bs t.
              (\<forall>a \<in> set bs. \<not> connects jwt_Parse uid a) \<and> execs jwt_Parse Validate bs s' = Inr t \<longrightarrow>
              Clients t uid = None \<and> (\<forall>u. users t uid = Some u \<longrightarrow> Online u))"
    by (intro exI [of _ s'] conjI)
  with on show ?thesis by simp
qed

theorem overflow_evicted_user_left_online_witness:
  "execs parse0 validate0 trace_full (init_state users0) = Inr st_full \<and>
   Clients st_full ''b'' = Some 1 \<and> full (Send_of st_full 1) \<and> ''b'' = ReceiverID msg_hi \<and>
   users st_full ''b'' = Some \<lparr>Online = True, LastSeen = 20\<rparr> \<and>
   run_Broadcast msg_hi st_full = Inr st_evicted \<and>
   Clients st_evicted ''b'' = None \<and> closed (Send_of st_evicted 1) \<and>
   users st_evicted = users st_full \<and>
   run_Unregister 30 1 st_evicted = Inr st_evicted \<and>
   \<not> list_ex (connects parse0 ''b'') trace_after \<and>
   \<not> isl (execs parse0 validate0 trace_after st_evicted) \<and>
   Clients (projr (execs parse0 validate0 trace_after st_evicted)) ''b'' = None \<and>
   map_option Online (users (projr (execs parse0 validate0 trace_after st_evicted)) ''b'') = Some True"
proof -
  have h2: "Clients st_full ''b'' = Some 1" by (simp add: st_full_def)
  have h3: "full (Send_of st_full 1)" using full_st_full by simp
  have h4: "''b'' = ReceiverID msg_hi \<or> ''b'' = SenderID msg_hi" by (simp add: msg_hi_def)
  have on: "users st_full ''b'' = Some \<lparr>Online = True, LastSeen = 20\<rparr>" by (simp add: st_full_def)
  have nc: "\<forall>a \<in> set trace_after. \<not> connects parse0 ''b'' a"
    by (simp add: trace_after_def token_user_def parse0_def)
  have ex: "\<not> isl (execs parse0 validate0 trace_after st_evicted) \<and>
            users (projr (execs parse0 validate0 trace_after st_evicted)) ''b'' \<noteq> None"
    by (simp add: trace_after_def st_evicted_def eval_defs)
  then obtain t v where t: "execs parse0 validate0 trace_after st_evicted = Inr t"
    and v: "users t ''b'' = Some v"
    by (cases "execs parse0 validate0 trace_after st_evicted") auto
  from overflow_evicted_user_left_online [OF reach_full h2 h3 h4]
  obtain s' where r: "run_Broadcast msg_hi st_full = Inr s'"
    and gone: "Clients s' ''b'' = None" and cl: "closed (Send_of s' 1)"
    and us: "users s' = users st_full"
    and unreg: "\<forall>now. run_Unregister now 1 s' = Inr s'"
    and later: "\<forall>bs t.
              (\<forall>a \<in> set bs. \<not> connects parse0 ''b'' a) \<and> execs parse0 validate0 bs s' = Inr t \<longrightarrow>
              Clients t ''b'' = None \<and> (\<forall>u. users t ''b'' = Some u \<longrightarrow> Online u)"
    by (elim exE conjE) (rule that)
  from r run_Broadcast_st_full have e: "s' = st_evicted" by simp
  from later [rule_format, of trace_after t] nc t e v
  have "Clients t ''b'' = None" and "Online v" by simp_all
  with t v have fin: "Clients (projr (execs parse0 validate0 trace_after st_evicted)) ''b'' = None \<and>
      map_option Online (users (projr (execs parse0 validate0 trace_after st_evicted)) ''b'') = Some True"
    by simp
  from nc have nc': "\<not> list_ex (connects parse0 ''b'') trace_after"
    by (simp add: list_ex_iff)
  from reach_full h2 h3 h4 on run_Broadcast_st_full gone cl us unreg e nc' ex fin
  show ?thesis by (simp add: msg_hi_def)
qed

section \<open>The handshake\<close>

text \<open>
  Claim C9. When the token is empty, or \<open>jwt.Parse\<close> fails or gives a token that is not
  valid, or the claims are no \<open>MapClaims\<close> or carry no non-empty string \<open>user_id\<close>, the
  handler closes the transport, writes nothing to it, starts no goroutine and leaves the
  state as it was. Otherwise it allocates a client with an empty open queue of capacity 256,
  the hub registers it under its user id, and the write pump and the read pump of this
  client are started. Every call is of one of these two kinds.
\<close>

theorem handshake_gate:
  "((tokenStr = [] \<or> (\<exists>err. jwt_Parse tokenStr = Inl err) \<or>
     (\<exists>token. jwt_Parse tokenStr = Inr token \<and>
        (\<not> Valid token \<or> Claims token = OtherClaims \<or>
         (\<exists>cm. Claims token = MapClaims cm \<and>
            (\<forall>userID. cm ''user_id'' = Some (StringValue userID) \<longrightarrow> userID = []))))) \<longrightarrow>
    WebSocketChat jwt_Parse c tokenStr now s = Inr (s, [Close], [])) \<and>
   (\<forall>token cm userID.
      tokenStr \<noteq> [] \<and> jwt_Parse tokenStr = Inr token \<and> Valid token \<and> Claims token = MapClaims cm \<and>
      cm ''user_id'' = Some (StringValue userID) \<and> userID \<noteq> [] \<longrightarrow>
      (\<exists>s'. WebSocketChat jwt_Parse c tokenStr now s =
              Inr (s', [], [GoWritePump (length (heap s)), GoReadPump (length (heap s))]) \<and>
            heap s' = heap s @ [\<lparr>Conn = c, UserID = userID, Send = \<lparr>buf = [], cap = 256, closed = False\<rparr>\<rparr>] \<and>
            Clients s' = (Clients s)(userID \<mapsto> length (heap s)))) \<and>
   (WebSocketChat jwt_Parse c tokenStr now s = Inr (s, [Close], []) \<or>
    (\<exists>s' userID. userID \<noteq> [] \<and>
       WebSocketChat jwt_Parse c tokenStr now s =
         Inr (s', [], [GoWritePump (length (heap s)), GoReadPump (length (heap s))]) \<and>
       heap s' = heap s @ [\<lparr>Conn = c, UserID = userID, Send = \<lparr>buf = [], cap = 256, closed = False\<rparr>\<rparr>] \<and>
       Clients s' = (Clients s)(userID \<mapsto> length (heap s))))"
proof (intro conjI allI impI)
  assume "tokenStr = [] \<or> (\<exists>err. jwt_Parse tokenStr = Inl err) \<or>
     (\<exists>token. jwt_Parse tokenStr = Inr token \<and>
        (\<not> Valid token \<or> Claims token = OtherClaims \<or>
         (\<exists>cm. Claims token = MapClaims cm \<and>
            (\<forall>userID. cm ''user_id'' = Some (StringValue userID) \<longrightarrow> userID = []))))"
  then have "token_user jwt_Parse tokenStr = None"
    by (auto simp: token_user_def split: sum.splits claims.splits option.splits claim_value.splits)
  then show "WebSocketChat jwt_Parse c tokenStr now s = Inr (s, [Close], [])"
    by (simp add: WebSocketChat_def)
next
  fix token cm userID
  assume "tokenStr \<noteq> [] \<and> jwt_Parse tokenStr = Inr token \<and> Valid token \<and> Claims token = MapClaims cm \<and>
      cm ''user_id'' = Some (StringValue userID) \<and> userID \<noteq> []"
  then have "token_user jwt_Parse tokenStr = Some userID"
    by (simp add: token_user_def)
  then show "\<exists>s'. WebSocketChat jwt_Parse c tokenStr now s =
              Inr (s', [], [GoWritePump (length (heap s)), GoReadPump (length (heap s))]) \<and>
            heap s' = heap s @ [\<lparr>Conn = c, UserID = userID, Send = \<lparr>buf = [], cap = 256, closed = False\<rparr>\<rparr>] \<and>
            Clients s' = (Clients s)(userID \<mapsto> length (heap s))"
    by (simp add: WebSocketChat_def run_Register_def deref_def Let_def)
next
  show "WebSocketChat jwt_Parse c tokenStr now s = Inr (s, [Close], []) \<or>
    (\<exists>s' userID. userID \<noteq> [] \<and>
       WebSocketChat jwt_Parse c tokenStr now s =
         Inr (s', [], [GoWritePump (length (heap s)), GoReadPump (length (heap s))]) \<and>
       heap s' = heap s @ [\<lparr>Conn = c, UserID = userID, Send = \<lparr>buf = [], cap = 256, closed = False\<rparr>\<rparr>] \<and>
       Clients s' = (Clients s)(userID \<mapsto> length (heap s)))"
  proof (cases "token_user jwt_Parse tokenStr")
    case None
    then show ?thesis by (simp add: WebSocketChat_def)
  next
    case (Some userID)
    then have "userID \<noteq> []"
      by (auto simp: token_user_def split: sum.splits claims.splits option.splits claim_value.splits if_splits)
    with Some show ?thesis
      by (simp add: WebSocketChat_def run_Register_def deref_def Let_def)
  qed
qed

theorem handshake_gate_witness:
  "WebSocketChat parse0 7 [] 10 (init_state users0) = Inr (init_state users0, [Close], []) \<and>
   parse_bad ''expired'' = Inl ''token is expired'' \<and>
   WebSocketChat parse_bad 7 ''expired'' 10 (init_state users0) = Inr (init_state users0, [Close], []) \<and>
   \<not> Valid (projr (parse_bad ''forged'')) \<and>
   WebSocketChat parse_bad 7 ''forged'' 10 (init_state users0) = Inr (init_state users0, [Close], []) \<and>
   Claims (projr (parse_bad ''typed'')) = OtherClaims \<and>
   WebSocketChat parse_bad 7 ''typed'' 10 (init_state users0) = Inr (init_state users0, [Close], []) \<and>
   WebSocketChat parse_bad 7 ''numeric'' 10 (init_state users0) = Inr (init_state users0, [Close], []) \<and>
   WebSocketChat parse_bad 7 ''anonymous'' 10 (init_state users0) = Inr (init_state users0, [Close], []) \<and>
   WebSocketChat parse_bad 7 ''missing'' 10 (init_state users0) = Inr (init_state users0, [Close], []) \<and>
   (\<exists>s'. WebSocketChat parse0 7 ''a'' 10 (init_state users0) = Inr (s', [], [GoWritePump 0, GoReadPump 0]) \<and>
         heap s' = [\<lparr>Conn = 7, UserID = ''a'', Send = \<lparr>buf = [], cap = 256, closed = False\<rparr>\<rparr>] \<and>
         Clients s' ''a'' = Some 0)"
proof -
  note G = handshake_gate [where c = 7 and now = 10 and s = "init_state users0"]
  have 0: "WebSocketChat parse0 7 [] 10 (init_state users0) = Inr (init_state users0, [Close], [])"
    using G [where jwt_Parse = parse0 and tokenStr = "[]"] by simp
  have e: "parse_bad ''expired'' = Inl ''token is expired''" by (simp add: parse_bad_def)
  have 1: "WebSocketChat parse_bad 7 ''expired'' 10 (init_state users0) = Inr (init_state users0, [Close], [])"
    using G [where jwt_Parse = parse_bad and tokenStr = "''expired''"] e by simp
  have f: "parse_bad ''forged'' = Inr \<lparr>Valid = False, Claims = MapClaims [''user_id'' \<mapsto> StringValue ''a'']\<rparr>"
    by (simp add: parse_bad_def)
  have 2: "WebSocketChat parse_bad 7 ''forged'' 10 (init_state users0) = Inr (init_state users0, [Close], [])"
    using G [where jwt_Parse = parse_bad and tokenStr = "''forged''"] f by simp
  have t: "parse_bad ''typed'' = Inr \<lparr>Valid = True, Claims = OtherClaims\<rparr>"
    by (simp add: parse_bad_def)
  have 3: "WebSocketChat parse_bad 7 ''typed'' 10 (init_state users0) = Inr (init_state users0, [Close], [])"
    using G [where jwt_Parse = parse_bad and tokenStr = "''typed''"] t by simp
  have n: "parse_bad ''numeric'' = Inr \<lparr>Valid = True, Claims = MapClaims [''user_id'' \<mapsto> OtherValue]\<rparr>"
    by (simp add: parse_bad_def)
  have 4: "WebSocketChat parse_bad 7 ''numeric'' 10 (init_state users0) = Inr (init_state users0, [Close], [])"
    using G [where jwt_Parse = parse_bad and tokenStr = "''numeric''"] n by simp
  have a: "parse_bad ''anonymous'' = Inr \<lparr>Valid = True, Claims = MapClaims [''user_id'' \<mapsto> StringValue []]\<rparr>"
    by (simp add: parse_bad_def)
  have 5: "WebSocketChat parse_bad 7 ''anonymous'' 10 (init_state users0) = Inr (init_state users0, [Close], [])"
    using G [where jwt_Parse = parse_bad and tokenStr = "''anonymous''"] a by simp
  have m: "parse_bad ''missing'' = Inr \<lparr>Valid = True, Claims = MapClaims Map.empty\<rparr>"
    by (simp add: parse_bad_def)
  have 6: "WebSocketChat parse_bad 7 ''missing'' 10 (init_state users0) = Inr (init_state users0, [Close], [])"
    using G [where jwt_Parse = parse_bad and tokenStr = "''missing''"] m by simp
  have p: "parse0 ''a'' = Inr \<lparr>Valid = True, Claims = MapClaims [''user_id'' \<mapsto> StringValue ''a'']\<rparr>"
    by (simp add: parse0_def)
  have h: "heap (init_state users0) = []" by (simp add: init_state_def)
  from G [where jwt_Parse = parse0 and tokenStr = "''a''", THEN conjunct2, THEN conjunct1, rule_format,
      of "\<lparr>Valid = True, Claims = MapClaims [''user_id'' \<mapsto> StringValue ''a'']\<rparr>"
         "[''user_id'' \<mapsto> StringValue ''a'']" "''a''"] p h
  have 7: "\<exists>s'. WebSocketChat parse0 7 ''a'' 10 (init_state users0) = Inr (s', [], [GoWritePump 0, GoReadPump 0]) \<and>
         heap s' = [\<lparr>Conn = 7, UserID = ''a'', Send = \<lparr>buf = [], cap = 256, closed = False\<rparr>\<rparr>] \<and>
         Clients s' ''a'' = Some 0"
    by auto
  from 0 e 1 f 2 t 3 4 5 6 7 show ?thesis by simp
qed

end
